theory Spec2Isabelle
  imports Main
begin

section \<open>Source text and character classes\<close>

text \<open>
  A source string is a list of code units. The model covers the code units 0 to 255
  (Isabelle's \<open>char\<close>); on these the classes below are the ones JavaScript's regular
  expressions use without the \<open>u\<close> and \<open>i\<close> flags: \<open>\d\<close> is \<open>[0-9]\<close>,
  \<open>\w\<close> is \<open>[A-Za-z0-9_]\<close>, \<open>\s\<close> holds TAB, LF, VT, FF, CR, SPACE and NBSP,
  and the line terminators (which \<open>.\<close> refuses and the multiline anchors look at) are
  LF and CR.
\<close>

definition codeUnit :: "char \<Rightarrow> nat" where
  "codeUnit c = of_char c"

definition isDigit :: "char \<Rightarrow> bool" where
  "isDigit c = (48 \<le> codeUnit c \<and> codeUnit c \<le> 57)"

definition isIdentStart :: "char \<Rightarrow> bool" where
  "isIdentStart c =
     ((65 \<le> codeUnit c \<and> codeUnit c \<le> 90) \<or> (97 \<le> codeUnit c \<and> codeUnit c \<le> 122) \<or> codeUnit c = 95)"

definition isWordChar :: "char \<Rightarrow> bool" where
  "isWordChar c = (isIdentStart c \<or> isDigit c)"

definition isSpace :: "char \<Rightarrow> bool" where
  "isSpace c = ((9 \<le> codeUnit c \<and> codeUnit c \<le> 13) \<or> codeUnit c = 32 \<or> codeUnit c = 160)"

definition isLineTerminator :: "char \<Rightarrow> bool" where
  "isLineTerminator c = (codeUnit c = 10 \<or> codeUnit c = 13)"

definition isOpChar :: "char \<Rightarrow> bool" where
  "isOpChar c = (c \<in> set ''+-*/=<>!&|^%'')"

definition startsWith :: "string \<Rightarrow> string \<Rightarrow> bool" where
  "startsWith s p = (take (length p) s = p)"

text \<open>\<open>s.includes(p)\<close>: \<open>p\<close> occurs in \<open>s\<close> as a contiguous substring.\<close>

fun strIncludes :: "string \<Rightarrow> string \<Rightarrow> bool" where
  "strIncludes [] p = (p = [])"
| "strIncludes (c # s) p = (startsWith (c # s) p \<or> strIncludes s p)"

text \<open>\<open>xs.join(sep)\<close> on a list of strings.\<close>

fun join :: "string \<Rightarrow> string list \<Rightarrow> string" where
  "join sep [] = []"
| "join sep [x] = x"
| "join sep (x # y # ys) = x @ sep @ join sep (y # ys)"

text \<open>The decimal form of a natural number, as a template literal prints a position.\<close>

fun showNat :: "nat \<Rightarrow> string" where
  "showNat n = (if n < 10 then [''0123456789'' ! n]
                else showNat (n div 10) @ [''0123456789'' ! (n mod 10)])"

declare showNat.simps [simp del]

definition orElse :: "'a option \<Rightarrow> 'a option \<Rightarrow> 'a option" where
  "orElse a b = (case a of Some x \<Rightarrow> Some x | None \<Rightarrow> b)"

section \<open>Tokens\<close>

datatype TokenKind =
  KEYWORD | SAAAM_KEYWORD | IDENTIFIER | NUMBER | STRING | OPERATOR | PUNCTUATION
  | BRACKET | WHITESPACE | COMMENT | EOF

text \<open>The type string of a token, as error messages print it.\<close>

fun kindName :: "TokenKind \<Rightarrow> string" where
  "kindName KEYWORD = ''KEYWORD''"
| "kindName SAAAM_KEYWORD = ''SAAAM_KEYWORD''"
| "kindName IDENTIFIER = ''IDENTIFIER''"
| "kindName NUMBER = ''NUMBER''"
| "kindName STRING = ''STRING''"
| "kindName OPERATOR = ''OPERATOR''"
| "kindName PUNCTUATION = ''PUNCTUATION''"
| "kindName BRACKET = ''BRACKET''"
| "kindName WHITESPACE = ''WHITESPACE''"
| "kindName COMMENT = ''COMMENT''"
| "kindName EOF = ''EOF''"

record Token =
  tok_type :: TokenKind
  tok_value :: string
  tok_position :: nat

section \<open>The token regular expressions\<close>

text \<open>
  \<open>tokenize\<close> builds, for each entry of \<open>tokenTypes\<close>, the expression
  \<open>new RegExp("^" + regex.source, multiline ? "m" : "")\<close> and calls
  \<open>remaining.match\<close>. Each function below returns \<open>match[0]\<close> of that call, or
  \<open>None\<close> when the call returns null. The prefixed \<open>^\<close> binds to the first
  top-level alternative only, so the later alternatives of STRING, OPERATOR and COMMENT
  are searched for at every index of \<open>remaining\<close>, first index first.
\<close>

definition endsWord :: "string \<Rightarrow> bool" where
  "endsWord r = (case r of [] \<Rightarrow> True | c # _ \<Rightarrow> \<not> isWordChar c)"

text \<open>\<open>^\b(w1|w2|...)\b\<close>: the alternatives in order, each followed by a word boundary.\<close>

fun matchWords :: "string list \<Rightarrow> string \<Rightarrow> string option" where
  "matchWords [] r = None"
| "matchWords (k # ks) r =
     (if startsWith r k \<and> endsWord (drop (length k) r) then Some k else matchWords ks r)"

definition reservedWords :: "string list" where
  "reservedWords = [''var'', ''const'', ''let'', ''function'', ''if'', ''else'', ''for'', ''while'',
     ''do'', ''switch'', ''case'', ''break'', ''continue'', ''return'', ''this'', ''new'',
     ''true'', ''false'', ''null'', ''undefined'']"

definition saaamKeywords :: "string list" where
  "saaamKeywords = [''vec2'', ''vec3'', ''yield'', ''signal'', ''state'', ''create'', ''step'',
     ''draw'', ''on_collision'']"

text \<open>\<open>^\b[a-zA-Z_][a-zA-Z0-9_]*\b\<close>\<close>

definition matchIdentifier :: "string \<Rightarrow> string option" where
  "matchIdentifier r =
     (case r of [] \<Rightarrow> None
      | c # _ \<Rightarrow> if isIdentStart c then Some (takeWhile isWordChar r) else None)"

text \<open>
  \<open>^\b\d+(\.\d+)?(e[+-]?\d+)?\b\<close>. The digit runs are greedy and giving a digit back
  never produces a word boundary, so the backtracking search tries, in this order: fraction
  and exponent, fraction only, exponent only, the integer part alone.
\<close>

definition matchFrac :: "string \<Rightarrow> string option" where
  "matchFrac r =
     (case r of [] \<Rightarrow> None
      | c # r' \<Rightarrow> if c = CHR ''.'' \<and> takeWhile isDigit r' \<noteq> []
                  then Some (c # takeWhile isDigit r') else None)"

definition matchExp :: "string \<Rightarrow> string option" where
  "matchExp r =
     (case r of [] \<Rightarrow> None
      | c # r' \<Rightarrow>
          if c = CHR ''e'' then
            (let sgn = (case r' of [] \<Rightarrow> []
                        | s # _ \<Rightarrow> if s = CHR ''+'' \<or> s = CHR ''-'' then [s] else []);
                 g = takeWhile isDigit (drop (length sgn) r')
             in if g = [] then None else Some (c # sgn @ g))
          else None)"

definition tryExp :: "string \<Rightarrow> string \<Rightarrow> string option" where
  "tryExp pre r =
     (case matchExp r of None \<Rightarrow> None
      | Some e \<Rightarrow> if endsWord (drop (length e) r) then Some (pre @ e) else None)"

definition tryEnd :: "string \<Rightarrow> string \<Rightarrow> string option" where
  "tryEnd pre r = (if endsWord r then Some pre else None)"

definition matchNumber :: "string \<Rightarrow> string option" where
  "matchNumber r =
     (let d = takeWhile isDigit r; r1 = dropWhile isDigit r in
      if d = [] then None
      else orElse
        (case matchFrac r1 of None \<Rightarrow> None
         | Some f \<Rightarrow> (let r2 = drop (length f) r1
                      in orElse (tryExp (d @ f) r2) (tryEnd (d @ f) r2)))
        (orElse (tryExp d r1) (tryEnd d r1)))"

text \<open>
  The body of a quoted string after its opening quote, \<open>([^q\\]|\\.)*q\<close>: a backslash
  takes the next code unit with it unless that is a line terminator.
\<close>

fun scanQuoted :: "char \<Rightarrow> string \<Rightarrow> string option" where
  "scanQuoted q [] = None"
| "scanQuoted q [c] = (if c = q then Some [c] else None)"
| "scanQuoted q (c # d # r) =
     (if c = q then Some [c]
      else if c = CHR 0x5C then
        (if isLineTerminator d then None
         else map_option (\<lambda>v. c # d # v) (scanQuoted q r))
      else map_option (\<lambda>v. c # v) (scanQuoted q (d # r)))"

definition matchQuotedAt :: "char \<Rightarrow> string \<Rightarrow> string option" where
  "matchQuotedAt q r =
     (case r of [] \<Rightarrow> None
      | c # r' \<Rightarrow> if c = q then map_option (\<lambda>v. c # v) (scanQuoted q r') else None)"

text \<open>The first index of \<open>r\<close> at which the unanchored pattern \<open>m\<close> matches.\<close>

fun searchFrom :: "(string \<Rightarrow> string option) \<Rightarrow> string \<Rightarrow> string option" where
  "searchFrom m [] = m []"
| "searchFrom m (c # r) = (case m (c # r) of Some v \<Rightarrow> Some v | None \<Rightarrow> searchFrom m r)"

text \<open>\<open>^'([^'\\]|\\.)*'|"([^"\\]|\\.)*"\<close>\<close>

definition matchString :: "string \<Rightarrow> string option" where
  "matchString r = orElse (matchQuotedAt (CHR 0x27) r) (searchFrom (matchQuotedAt (CHR 0x22)) r)"

text \<open>\<open>^[+\-*/=<>!&|^%]=?|&&|\|\||[?:]|\.\.\.\<close>\<close>

definition matchOpFirst :: "string \<Rightarrow> string option" where
  "matchOpFirst r =
     (case r of [] \<Rightarrow> None
      | c # r' \<Rightarrow> if isOpChar c
                  then Some (if startsWith r' ''='' then [c, CHR ''=''] else [c])
                  else None)"

definition matchOpRest :: "string \<Rightarrow> string option" where
  "matchOpRest r =
     (if startsWith r ''&&'' then Some ''&&''
      else if startsWith r ''||'' then Some ''||''
      else if startsWith r ''?'' then Some ''?''
      else if startsWith r '':'' then Some '':''
      else if startsWith r ''...'' then Some ''...''
      else None)"

definition matchOperator :: "string \<Rightarrow> string option" where
  "matchOperator r = orElse (matchOpFirst r) (searchFrom matchOpRest r)"

text \<open>\<open>^[.,;()]\<close>, \<open>^[[\]{}]\<close> and \<open>^\s+\<close>\<close>

definition matchPunctuation :: "string \<Rightarrow> string option" where
  "matchPunctuation r =
     (case r of [] \<Rightarrow> None | c # _ \<Rightarrow> if c \<in> set ''.,;()'' then Some [c] else None)"

definition matchBracket :: "string \<Rightarrow> string option" where
  "matchBracket r =
     (case r of [] \<Rightarrow> None | c # _ \<Rightarrow> if c \<in> set ''[]{}'' then Some [c] else None)"

definition matchWhitespace :: "string \<Rightarrow> string option" where
  "matchWhitespace r = (if takeWhile isSpace r = [] then None else Some (takeWhile isSpace r))"

text \<open>
  \<open>^\/\/.*$|\/\*[\s\S]*?\*\/\<close> with the \<open>m\<close> flag: \<open>^\<close> holds at index 0 and after
  every line terminator, \<open>$\<close> at the end and before every line terminator. The block
  comment is lazy: it ends at the first \<open>*/\<close>.
\<close>

fun blockBody :: "string \<Rightarrow> string option" where
  "blockBody [] = None"
| "blockBody (c # r) =
     (if c = CHR ''*'' \<and> startsWith r ''/'' then Some ''*/''
      else map_option (\<lambda>v. c # v) (blockBody r))"

definition commentAt :: "bool \<Rightarrow> string \<Rightarrow> string option" where
  "commentAt lineStart r =
     (if lineStart \<and> startsWith r ''//''
      then Some (''//'' @ takeWhile (\<lambda>c. \<not> isLineTerminator c) (drop 2 r))
      else if startsWith r ''/*''
      then map_option (\<lambda>v. ''/*'' @ v) (blockBody (drop 2 r))
      else None)"

fun searchComment :: "bool \<Rightarrow> string \<Rightarrow> string option" where
  "searchComment lineStart [] = commentAt lineStart []"
| "searchComment lineStart (c # r) =
     (case commentAt lineStart (c # r) of Some v \<Rightarrow> Some v
      | None \<Rightarrow> searchComment (isLineTerminator c) r)"

definition matchComment :: "string \<Rightarrow> string option" where
  "matchComment r = searchComment True r"

fun regexMatch :: "TokenKind \<Rightarrow> string \<Rightarrow> string option" where
  "regexMatch KEYWORD r = matchWords reservedWords r"
| "regexMatch SAAAM_KEYWORD r = matchWords saaamKeywords r"
| "regexMatch IDENTIFIER r = matchIdentifier r"
| "regexMatch NUMBER r = matchNumber r"
| "regexMatch STRING r = matchString r"
| "regexMatch OPERATOR r = matchOperator r"
| "regexMatch PUNCTUATION r = matchPunctuation r"
| "regexMatch BRACKET r = matchBracket r"
| "regexMatch WHITESPACE r = matchWhitespace r"
| "regexMatch COMMENT r = matchComment r"
| "regexMatch EOF r = None"

text \<open>The table \<open>tokenTypes\<close>, in its order; WHITESPACE and COMMENT carry \<open>ignore\<close>.\<close>

definition tokenTypes :: "TokenKind list" where
  "tokenTypes = [KEYWORD, SAAAM_KEYWORD, IDENTIFIER, NUMBER, STRING, OPERATOR, PUNCTUATION,
     BRACKET, WHITESPACE, COMMENT]"

definition ignore :: "TokenKind \<Rightarrow> bool" where
  "ignore k = (k = WHITESPACE \<or> k = COMMENT)"

text \<open>The inner \<open>for\<close> loop of \<open>tokenize\<close>: the first entry whose expression matches.\<close>

fun firstMatch :: "TokenKind list \<Rightarrow> string \<Rightarrow> (TokenKind \<times> string) option" where
  "firstMatch [] r = None"
| "firstMatch (k # ks) r =
     (case regexMatch k r of Some v \<Rightarrow> Some (k, v) | None \<Rightarrow> firstMatch ks r)"

section \<open>The lexer\<close>

text \<open>Every match of a token expression is a non-empty piece of \<open>remaining\<close>.\<close>

lemma startsWith_length: "startsWith r p \<Longrightarrow> length p \<le> length r"
proof -
  assume "startsWith r p"
  then have "length (take (length p) r) = length p"
    unfolding startsWith_def by simp
  then show ?thesis by simp
qed

lemma matchWords_bounds:
  "matchWords ks r = Some v \<Longrightarrow> [] \<notin> set ks \<Longrightarrow> 0 < length v \<and> length v \<le> length r"
  by (induction ks) (auto split: if_splits dest: startsWith_length)

lemma takeWhile_length_le: "length (takeWhile P r) \<le> length r"
  by (induction r) auto

lemma matchIdentifier_bounds:
  "matchIdentifier r = Some v \<Longrightarrow> 0 < length v \<and> length v \<le> length r"
  unfolding matchIdentifier_def
  by (cases r) (auto split: if_splits simp: isWordChar_def takeWhile_length_le)

lemma matchFrac_bounds: "matchFrac r = Some f \<Longrightarrow> length f \<le> length r"
  unfolding matchFrac_def
  by (cases r) (auto split: if_splits simp: takeWhile_length_le)

lemma matchExp_bounds: "matchExp r = Some e \<Longrightarrow> length e \<le> length r"
proof (cases r)
  case Nil
  assume "matchExp r = Some e"
  with Nil show ?thesis by (simp add: matchExp_def)
next
  case (Cons c r')
  assume m: "matchExp r = Some e"
  define sgn where "sgn = (case r' of [] \<Rightarrow> []
                        | s # _ \<Rightarrow> if s = CHR ''+'' \<or> s = CHR ''-'' then [s] else [])"
  have e: "e = c # sgn @ takeWhile isDigit (drop (length sgn) r')"
    using m Cons unfolding matchExp_def sgn_def by (auto simp: Let_def split: if_splits)
  have "length sgn \<le> length r'"
    unfolding sgn_def by (cases r') auto
  moreover have "length (takeWhile isDigit (drop (length sgn) r')) \<le> length r' - length sgn"
    using takeWhile_length_le [of isDigit "drop (length sgn) r'"] by simp
  ultimately show ?thesis using e Cons by simp
qed

lemma matchNumber_bounds:
  assumes "matchNumber r = Some v"
  shows "0 < length v \<and> length v \<le> length r"
proof -
  define d where "d = takeWhile isDigit r"
  define r1 where "r1 = dropWhile isDigit r"
  have split: "length d + length r1 = length r"
    unfolding d_def r1_def
    by (metis length_append takeWhile_dropWhile_id)
  have d: "d \<noteq> []"
    using assms unfolding matchNumber_def d_def by (auto simp: Let_def split: if_splits)
  have tryExp: "\<And>pre s w. tryExp pre s = Some w \<Longrightarrow> length pre \<le> length w \<and> length w \<le> length pre + length s"
    unfolding tryExp_def by (auto split: option.splits if_splits dest: matchExp_bounds)
  have tryEnd: "\<And>pre s w. tryEnd pre s = Some w \<Longrightarrow> w = pre"
    unfolding tryEnd_def by (auto split: if_splits)
  from assms have
    "(\<exists>f. matchFrac r1 = Some f \<and>
        (tryExp (d @ f) (drop (length f) r1) = Some v \<or> tryEnd (d @ f) (drop (length f) r1) = Some v))
     \<or> tryExp d r1 = Some v \<or> tryEnd d r1 = Some v"
    unfolding matchNumber_def d_def [symmetric] r1_def [symmetric] orElse_def
    using d by (auto simp: Let_def split: option.splits)
  then show ?thesis
  proof (elim disjE exE conjE)
    fix f assume f: "matchFrac r1 = Some f" and t: "tryExp (d @ f) (drop (length f) r1) = Some v"
    from matchFrac_bounds [OF f] tryExp [OF t] d split show ?thesis
      by (cases d) auto
  next
    fix f assume f: "matchFrac r1 = Some f" and t: "tryEnd (d @ f) (drop (length f) r1) = Some v"
    from matchFrac_bounds [OF f] tryEnd [OF t] d split show ?thesis
      by (cases d) auto
  next
    assume t: "tryExp d r1 = Some v"
    from tryExp [OF t] d split show ?thesis by (cases d) auto
  next
    assume t: "tryEnd d r1 = Some v"
    from tryEnd [OF t] d split show ?thesis by (cases d) auto
  qed
qed

lemma scanQuoted_bounds: "scanQuoted q r = Some v \<Longrightarrow> 0 < length v \<and> length v \<le> length r"
  by (induction q r arbitrary: v rule: scanQuoted.induct) (auto split: if_splits)

lemma matchQuotedAt_bounds:
  "matchQuotedAt q r = Some v \<Longrightarrow> 0 < length v \<and> length v \<le> length r"
  unfolding matchQuotedAt_def
  by (cases r) (auto split: if_splits dest: scanQuoted_bounds)

lemma searchFrom_bounds:
  assumes "\<And>s w. m s = Some w \<Longrightarrow> 0 < length w \<and> length w \<le> length s"
  shows "searchFrom m r = Some v \<Longrightarrow> 0 < length v \<and> length v \<le> length r"
proof (induction r)
  case Nil
  then show ?case using assms [of "[]" v] by simp
next
  case (Cons c r)
  show ?case
  proof (cases "m (c # r)")
    case None
    with Cons show ?thesis by fastforce
  next
    case (Some w)
    with Cons.prems have "w = v" by simp
    with Some assms [of "c # r" w] show ?thesis by simp
  qed
qed

lemma matchString_bounds:
  "matchString r = Some v \<Longrightarrow> 0 < length v \<and> length v \<le> length r"
  unfolding matchString_def orElse_def
  by (auto split: option.splits
           dest: matchQuotedAt_bounds searchFrom_bounds [OF matchQuotedAt_bounds, rotated -1])

lemma matchOpRest_bounds:
  "matchOpRest r = Some v \<Longrightarrow> 0 < length v \<and> length v \<le> length r"
  unfolding matchOpRest_def
  by (auto split: if_splits dest: startsWith_length)

lemma matchOpFirst_bounds:
  "matchOpFirst r = Some v \<Longrightarrow> 0 < length v \<and> length v \<le> length r"
  unfolding matchOpFirst_def
  by (cases r) (auto split: if_splits dest: startsWith_length)

lemma matchOperator_bounds:
  "matchOperator r = Some v \<Longrightarrow> 0 < length v \<and> length v \<le> length r"
  unfolding matchOperator_def orElse_def
  by (auto split: option.splits
           dest: matchOpFirst_bounds searchFrom_bounds [OF matchOpRest_bounds, rotated -1])

lemma blockBody_bounds: "blockBody r = Some v \<Longrightarrow> length v \<le> length r"
  by (induction r arbitrary: v) (auto split: if_splits dest: startsWith_length)

lemma commentAt_bounds:
  assumes "commentAt b r = Some v"
  shows "0 < length v \<and> length v \<le> length r"
proof (cases "b \<and> startsWith r ''//''")
  case True
  then have v: "v = ''//'' @ takeWhile (\<lambda>c. \<not> isLineTerminator c) (drop 2 r)"
    using assms unfolding commentAt_def by simp
  from True have "2 \<le> length r" using startsWith_length [of r "''//''"] by simp
  moreover have "length (takeWhile (\<lambda>c. \<not> isLineTerminator c) (drop 2 r)) \<le> length r - 2"
    using takeWhile_length_le [of _ "drop 2 r"] by simp
  ultimately show ?thesis using v by simp
next
  case False
  then obtain w where sw: "startsWith r ''/*''" and w: "blockBody (drop 2 r) = Some w"
    and v: "v = ''/*'' @ w"
    using assms unfolding commentAt_def by (auto split: if_splits)
  from sw have "2 \<le> length r" using startsWith_length [of r "''/*''"] by simp
  with blockBody_bounds [OF w] v show ?thesis by simp
qed

lemma searchComment_bounds:
  "searchComment b r = Some v \<Longrightarrow> 0 < length v \<and> length v \<le> length r"
proof (induction r arbitrary: b)
  case Nil
  then show ?case using commentAt_bounds [of b "[]" v] by simp
next
  case (Cons c r)
  show ?case
  proof (cases "commentAt b (c # r)")
    case None
    with Cons.prems have "searchComment (isLineTerminator c) r = Some v" by simp
    from Cons.IH [OF this] show ?thesis by simp
  next
    case (Some w)
    with Cons.prems have "w = v" by simp
    with Some commentAt_bounds [of b "c # r" w] show ?thesis by simp
  qed
qed

lemma regexMatch_bounds:
  assumes "regexMatch k r = Some v"
  shows "0 < length v \<and> length v \<le> length r"
proof (cases k)
  case KEYWORD
  with assms show ?thesis
    using matchWords_bounds [of reservedWords r v] by (simp add: reservedWords_def)
next
  case SAAAM_KEYWORD
  with assms show ?thesis
    using matchWords_bounds [of saaamKeywords r v] by (simp add: saaamKeywords_def)
next
  case IDENTIFIER
  with assms show ?thesis using matchIdentifier_bounds by simp
next
  case NUMBER
  with assms show ?thesis using matchNumber_bounds by simp
next
  case STRING
  with assms show ?thesis using matchString_bounds by simp
next
  case OPERATOR
  with assms show ?thesis using matchOperator_bounds by simp
next
  case PUNCTUATION
  with assms show ?thesis
    by (cases r) (auto simp: matchPunctuation_def split: if_splits)
next
  case BRACKET
  with assms show ?thesis
    by (cases r) (auto simp: matchBracket_def split: if_splits)
next
  case WHITESPACE
  with assms show ?thesis
    by (auto simp: matchWhitespace_def takeWhile_length_le split: if_splits)
next
  case COMMENT
  with assms show ?thesis using searchComment_bounds by (simp add: matchComment_def)
next
  case EOF
  with assms show ?thesis by simp
qed

lemma firstMatch_bounds:
  "firstMatch ks r = Some (k, v) \<Longrightarrow> 0 < length v \<and> length v \<le> length r"
  by (induction ks) (auto split: option.splits dest: regexMatch_bounds)

text \<open>
  The \<open>while (remaining.length > 0)\<close> loop of \<open>tokenize\<close>. \<open>toks\<close> is
  \<open>this.tokens\<close> and \<open>errs\<close> is \<open>this.errors\<close>; \<open>slice(n)\<close> is \<open>drop n\<close>.
\<close>

definition unexpectedCharacter :: "nat \<Rightarrow> char \<Rightarrow> string" where
  "unexpectedCharacter pos c =
     ''Unexpected character at position '' @ showNat pos @ '': '' @ [CHR 0x27, c, CHR 0x27]"

function tokenizeLoop ::
  "string \<Rightarrow> nat \<Rightarrow> Token list \<Rightarrow> string list \<Rightarrow> Token list \<times> string list" where
  "tokenizeLoop remaining pos toks errs =
     (case remaining of [] \<Rightarrow> (toks, errs)
      | errorChar # _ \<Rightarrow>
         (case firstMatch tokenTypes remaining of
            None \<Rightarrow>
              tokenizeLoop (drop 1 remaining) (pos + 1) toks
                (errs @ [unexpectedCharacter pos errorChar])
          | Some (k, tokenValue) \<Rightarrow>
              tokenizeLoop (drop (length tokenValue) remaining) (pos + length tokenValue)
                (if ignore k then toks
                 else toks @ [\<lparr>tok_type = k, tok_value = tokenValue, tok_position = pos\<rparr>])
                errs))"
  by pat_completeness auto
termination
  by (relation "measure (\<lambda>(remaining, pos, toks, errs). length remaining)")
     (auto dest: firstMatch_bounds)

declare tokenizeLoop.simps [simp del]

definition tokenize :: "string \<Rightarrow> string list \<Rightarrow> Token list \<times> string list" where
  "tokenize src errs =
     (case tokenizeLoop src 0 [] errs of
        (toks, errs') \<Rightarrow>
          (toks @ [\<lparr>tok_type = EOF, tok_value = [], tok_position = length src\<rparr>], errs'))"

section \<open>The syntax tree\<close>

text \<open>
  \<open>ASTNode\<close>: one constructor for each \<open>type\<close> string the parser builds, with the
  fields in the order the object literals list them. A field that may hold \<open>null\<close> is an
  option. A number literal keeps its lexeme; it stands for the double
  \<open>Number.parseFloat(lexeme)\<close>. A string literal holds \<open>value\<close> and \<open>raw\<close>. The
  \<open>property\<close> of a member expression is a name (\<open>computed = false\<close>) or an
  expression (\<open>computed = true\<close>). \<open>isPredefined\<close> is absent on the identifiers
  built for \<open>undefined\<close> and for shorthand properties. The elements of
  \<open>cases\<close> and of \<open>properties\<close> are the \<open>SwitchCase\<close> and
  \<open>Property\<close> objects, which occur nowhere else.
\<close>

datatype LiteralValue =
  NumberValue string
  | StringValue string string
  | BoolValue bool
  | NullValue

datatype Node =
  Program "Node list"
  | VariableDeclaration string string "Node option"
  | FunctionDefinition string "string list" Node
  | Block "Node list"
  | ExpressionStatement Node
  | IfStatement Node Node "Node option"
  | ForLoop "Node option" "Node option" "Node option" Node
  | WhileLoop Node Node
  | DoWhileLoop Node Node
  | SwitchStatement Node "SwitchCase list"
  | ReturnStatement "Node option"
  | BreakStatement
  | ContinueStatement
  | EmptyStatement
  | AssignmentExpression string Node Node
  | BinaryExpression string Node Node
  | UnaryExpression string Node
  | CallExpression Node "Node list"
  | MemberExpression Node "string + Node" bool
  | ThisExpression
  | Vec2Expression Node Node
  | Vec3Expression Node Node Node
  | ObjectExpression "Property list"
  | ArrayExpression "Node option list"
  | Identifier string "bool option"
  | Literal LiteralValue
and SwitchCase = SwitchCase (caseTest: "Node option") (caseConsequent: "Node list")
and Property = Property Node Node bool

section \<open>Parser state, exceptions and the token cursor\<close>

text \<open>
  \<open>toks\<close> is \<open>this.tokens\<close> from index \<open>this.currentToken\<close> on; \<open>errors\<close>
  and \<open>warnings\<close> are the two message lists. A parsing function returns \<open>Ok\<close> with
  its value and the new state, or \<open>Throw\<close> with the message of the \<open>Error\<close> it
  throws and the state at that moment, or \<open>Diverges\<close> when the fuel that bounds its
  loops and its recursion is used up.
\<close>

record PState =
  toks :: "Token list"
  errors :: "string list"
  warnings :: "string list"

datatype 'a Result = Ok 'a PState | Throw string PState | Diverges

type_synonym 'a Parser = "PState \<Rightarrow> 'a Result"

fun andThen :: "'a Result \<Rightarrow> ('a \<Rightarrow> 'b Parser) \<Rightarrow> 'b Result" where
  "andThen (Ok v st) f = f v st"
| "andThen (Throw m st) f = Throw m st"
| "andThen Diverges f = Diverges"

definition addError :: "string \<Rightarrow> PState \<Rightarrow> PState" where
  "addError message st = st\<lparr>errors := errors st @ [message]\<rparr>"

definition addWarning :: "string \<Rightarrow> PState \<Rightarrow> PState" where
  "addWarning message st = st\<lparr>warnings := warnings st @ [message]\<rparr>"

definition throwError :: "string \<Rightarrow> 'a Parser" where
  "throwError message st = Throw message (addError message st)"

text \<open>
  \<open>peek()\<close> past the last token yields \<open>undefined\<close>, and reading \<open>.type\<close> of it
  throws a TypeError; this is its message in V8.
\<close>

definition undefinedToken :: string where
  "undefinedToken = ''Cannot read properties of undefined (reading '' @ [CHR 0x27] @ ''type''
     @ [CHR 0x27] @ '')''"

definition withToken :: "PState \<Rightarrow> (Token \<Rightarrow> 'a Result) \<Rightarrow> 'a Result" where
  "withToken st f = (case toks st of [] \<Rightarrow> Throw undefinedToken st | token # _ \<Rightarrow> f token)"

text \<open>The two tests of \<open>match(type, value)\<close> on the token \<open>peek()\<close> returned.\<close>

definition matchesType :: "Token \<Rightarrow> TokenKind \<Rightarrow> bool" where
  "matchesType token ty = (tok_type token = ty)"

definition matches :: "Token \<Rightarrow> TokenKind \<Rightarrow> string \<Rightarrow> bool" where
  "matches token ty v = (tok_type token = ty \<and> tok_value token = v)"

text \<open>
  \<open>consume(type, value)\<close>; an absent argument is \<open>None\<close>. Every call without a type
  follows a test of the same token, so with no token left the model throws as that test does.
\<close>

definition consume :: "TokenKind option \<Rightarrow> string option \<Rightarrow> Token Parser" where
  "consume ty v st =
     (case toks st of [] \<Rightarrow> Throw undefinedToken st
      | token # rest \<Rightarrow>
          if ty \<noteq> None \<and> Some (tok_type token) \<noteq> ty
          then throwError (''Expected token of type '' @ kindName (the ty) @ '', but got ''
                 @ kindName (tok_type token)) st
          else if v \<noteq> None \<and> Some (tok_value token) \<noteq> v
          then throwError (''Expected token with value '' @ the v @ '', but got ''
                 @ tok_value token) st
          else Ok token (st\<lparr>toks := rest\<rparr>))"

definition predefinedVariables :: "string list" where
  "predefinedVariables = [''position'', ''velocity'', ''size'', ''color'', ''rotation'', ''scale'',
     ''visible'', ''active'', ''tag'', ''components'', ''GRAVITY'', ''FRICTION'',
     ''MAX_FALL_SPEED'', ''delta_time'', ''current_time'', ''game_time'']"

definition predefinedFunctions :: "string list" where
  "predefinedFunctions = [''create'', ''step'', ''draw'', ''on_collision'',
     ''keyboard_check'', ''keyboard_check_pressed'', ''keyboard_check_released'',
     ''mouse_check'', ''mouse_check_pressed'', ''mouse_check_released'',
     ''draw_sprite'', ''draw_text'', ''draw_rectangle'', ''draw_circle'', ''draw_line'',
     ''play_sound'', ''play_music'', ''stop_sound'', ''stop_music'',
     ''vec2'', ''vec3'', ''point_distance'', ''check_collision'',
     ''create_object'', ''destroy_object'', ''find_object'', ''find_nearest'']"

text \<open>\<open>s.substring(1, s.length - 1)\<close>; \<open>substring\<close> swaps its arguments when the
  second is the smaller, so a string of one code unit is returned whole.\<close>

definition stripQuotes :: "string \<Rightarrow> string" where
  "stripQuotes s = (if 2 \<le> length s then take (length s - 2) (drop 1 s) else s)"

section \<open>The expression parser\<close>

text \<open>
  Each function takes \<open>E\<close>, the parser its calls of \<open>parseExpression\<close> run, and the
  fuel \<open>n\<close>; a loop iteration and a recursive call take one unit of fuel.
\<close>

text \<open>The \<open>do ... while (match(",") && consume())\<close> loop of \<open>parseCallExpression\<close>.\<close>

fun parseArguments :: "Node Parser \<Rightarrow> nat \<Rightarrow> Node list \<Rightarrow> Node list Parser" where
  "parseArguments E 0 args st = Diverges"
| "parseArguments E (Suc n) args st =
     andThen (E st) (\<lambda>arg st.
       withToken st (\<lambda>t.
         if matches t PUNCTUATION '','' then
           andThen (consume None None st) (\<lambda>_ st. parseArguments E n (args @ [arg]) st)
         else Ok (args @ [arg]) st))"

definition checkBuiltinCall :: "Node \<Rightarrow> Node list \<Rightarrow> PState \<Rightarrow> PState" where
  "checkBuiltinCall callee args st =
     (case callee of
        Identifier funcName _ \<Rightarrow>
          (let st1 = (if (funcName = ''keyboard_check'' \<or> funcName = ''keyboard_check_pressed''
                          \<or> funcName = ''keyboard_check_released'') \<and> length args \<noteq> 1
                      then addWarning (funcName @ '' expects exactly 1 argument (key code)'') st
                      else st);
               st2 = (if funcName = ''draw_sprite'' \<and> length args < 3
                      then addWarning
                        ''draw_sprite requires at least 3 arguments (sprite, x, y)'' st1
                      else st1)
           in if funcName = ''draw_text'' \<and> length args < 3
              then addWarning ''draw_text requires at least 3 arguments (text, x, y)'' st2
              else st2)
      | _ \<Rightarrow> st)"

definition parseCallExpression :: "Node Parser \<Rightarrow> nat \<Rightarrow> Node \<Rightarrow> Node Parser" where
  "parseCallExpression E n callee st =
     andThen (consume (Some PUNCTUATION) (Some ''('') st) (\<lambda>_ st.
     andThen (withToken st (\<lambda>t.
                if \<not> matches t PUNCTUATION '')'' then parseArguments E n [] st
                else Ok [] st)) (\<lambda>args st.
     andThen (consume (Some PUNCTUATION) (Some '')'') st) (\<lambda>_ st.
       Ok (CallExpression callee args) (checkBuiltinCall callee args st))))"

definition parseMemberExpression :: "Node \<Rightarrow> Node Parser" where
  "parseMemberExpression object st =
     andThen (consume (Some PUNCTUATION) (Some ''.'') st) (\<lambda>_ st.
     andThen (consume (Some IDENTIFIER) None st) (\<lambda>property st.
       Ok (MemberExpression object (Inl (tok_value property)) False) st))"

definition parseIndexExpression :: "Node Parser \<Rightarrow> Node \<Rightarrow> Node Parser" where
  "parseIndexExpression E object st =
     andThen (consume (Some BRACKET) (Some ''['') st) (\<lambda>_ st.
     andThen (E st) (\<lambda>property st.
     andThen (consume (Some BRACKET) (Some '']'') st) (\<lambda>_ st.
       Ok (MemberExpression object (Inr property) True) st)))"

text \<open>
  The property key of \<open>parseObjectLiteral\<close>: a name or a computed expression, or
  \<open>None\<close> on the path that records an error and continues the loop.
\<close>

definition parsePropertyKey :: "Node Parser \<Rightarrow> (string + Node) option Parser" where
  "parsePropertyKey E st =
     withToken st (\<lambda>t.
       if matches t BRACKET ''['' then
         andThen (consume (Some BRACKET) (Some ''['') st) (\<lambda>_ st.
         andThen (E st) (\<lambda>key st.
         andThen (consume (Some BRACKET) (Some '']'') st) (\<lambda>_ st.
           Ok (Some (Inr key)) st)))
       else if matchesType t IDENTIFIER then
         andThen (consume (Some IDENTIFIER) None st) (\<lambda>token st.
           Ok (Some (Inl (tok_value token))) st)
       else if matchesType t STRING then
         andThen (consume (Some STRING) None st) (\<lambda>token st.
           Ok (Some (Inl (stripQuotes (tok_value token)))) st)
       else Ok None (addError ''Expected property name in object literal'' st))"

definition parsePropertyValue :: "Node Parser \<Rightarrow> string + Node \<Rightarrow> Node option Parser" where
  "parsePropertyValue E key st =
     withToken st (\<lambda>t.
       if matches t PUNCTUATION '':'' then
         andThen (consume (Some PUNCTUATION) (Some '':'') st) (\<lambda>_ st.
         andThen (E st) (\<lambda>v st. Ok (Some v) st))
       else (case key of
               Inl name \<Rightarrow> Ok (Some (Identifier name None)) st
             | Inr _ \<Rightarrow> Ok None
                 (addError (''Expected '' @ [CHR 0x27] @ '':'' @ [CHR 0x27]
                    @ '' after property name in object literal'') st)))"

text \<open>\<open>if (this.match("PUNCTUATION", ",")) this.consume();\<close>\<close>

definition skipComma :: "unit Parser" where
  "skipComma st =
     withToken st (\<lambda>t.
       if matches t PUNCTUATION '','' then andThen (consume None None st) (\<lambda>_ st. Ok () st)
       else Ok () st)"

definition makeProperty :: "string + Node \<Rightarrow> Node \<Rightarrow> Property" where
  "makeProperty key v =
     (case key of Inl name \<Rightarrow> Property (Identifier name None) v False
      | Inr k \<Rightarrow> Property k v True)"

text \<open>The \<open>while\<close> loop of \<open>parseObjectLiteral\<close>.\<close>

fun parseProperties ::
  "Node Parser \<Rightarrow> nat \<Rightarrow> Property list \<Rightarrow> Property list Parser" where
  "parseProperties E 0 properties st = Diverges"
| "parseProperties E (Suc n) properties st =
     withToken st (\<lambda>t.
       if \<not> matches t BRACKET ''}'' \<and> \<not> matchesType t EOF then
         andThen (parsePropertyKey E st) (\<lambda>key st.
           case key of
             None \<Rightarrow> andThen (skipComma st) (\<lambda>_ st. parseProperties E n properties st)
           | Some k \<Rightarrow>
               andThen (parsePropertyValue E k st) (\<lambda>v st.
                 case v of
                   None \<Rightarrow> andThen (skipComma st) (\<lambda>_ st. parseProperties E n properties st)
                 | Some v \<Rightarrow>
                     withToken st (\<lambda>t.
                       if matches t PUNCTUATION '','' then
                         andThen (consume None None st) (\<lambda>_ st.
                           parseProperties E n (properties @ [makeProperty k v]) st)
                       else if \<not> matches t BRACKET ''}'' then
                         parseProperties E n (properties @ [makeProperty k v])
                           (addWarning (''Expected '' @ [CHR 0x27] @ '','' @ [CHR 0x27]
                              @ '' after property in object literal'') st)
                       else parseProperties E n (properties @ [makeProperty k v]) st)))
       else Ok properties st)"

definition parseObjectLiteral :: "Node Parser \<Rightarrow> nat \<Rightarrow> Node Parser" where
  "parseObjectLiteral E n st =
     andThen (consume (Some BRACKET) (Some ''{'') st) (\<lambda>_ st.
     andThen (parseProperties E n [] st) (\<lambda>properties st.
     andThen (consume (Some BRACKET) (Some ''}'') st) (\<lambda>_ st.
       Ok (ObjectExpression properties) st)))"

text \<open>The \<open>while\<close> loop of \<open>parseArrayLiteral\<close>; \<open>None\<close> is a hole.\<close>

fun parseElements ::
  "Node Parser \<Rightarrow> nat \<Rightarrow> Node option list \<Rightarrow> Node option list Parser" where
  "parseElements E 0 elements st = Diverges"
| "parseElements E (Suc n) elements st =
     withToken st (\<lambda>t.
       if \<not> matches t BRACKET '']'' \<and> \<not> matchesType t EOF then
         (if matches t PUNCTUATION '','' then
            andThen (consume None None st) (\<lambda>_ st. parseElements E n (elements @ [None]) st)
          else
            andThen (E st) (\<lambda>e st.
              withToken st (\<lambda>t.
                if matches t PUNCTUATION '','' then
                  andThen (consume None None st) (\<lambda>_ st.
                    parseElements E n (elements @ [Some e]) st)
                else if \<not> matches t BRACKET '']'' then
                  parseElements E n (elements @ [Some e])
                    (addWarning (''Expected '' @ [CHR 0x27] @ '','' @ [CHR 0x27]
                       @ '' after array element'') st)
                else parseElements E n (elements @ [Some e]) st)))
       else Ok elements st)"

definition parseArrayLiteral :: "Node Parser \<Rightarrow> nat \<Rightarrow> Node Parser" where
  "parseArrayLiteral E n st =
     andThen (consume (Some BRACKET) (Some ''['') st) (\<lambda>_ st.
     andThen (parseElements E n [] st) (\<lambda>elements st.
     andThen (consume (Some BRACKET) (Some '']'') st) (\<lambda>_ st.
       Ok (ArrayExpression elements) st)))"

definition isPredefined :: "string \<Rightarrow> bool" where
  "isPredefined identifier =
     (identifier \<in> set predefinedVariables \<or> identifier \<in> set predefinedFunctions)"

definition parsePrimary :: "Node Parser \<Rightarrow> nat \<Rightarrow> Node Parser" where
  "parsePrimary E n st =
     withToken st (\<lambda>t.
       if matches t KEYWORD ''this'' then
         andThen (consume None None st) (\<lambda>_ st. Ok ThisExpression st)
       else if matches t SAAAM_KEYWORD ''vec2'' then
         andThen (consume None None st) (\<lambda>_ st.
         andThen (consume (Some PUNCTUATION) (Some ''('') st) (\<lambda>_ st.
         andThen (E st) (\<lambda>x st.
         andThen (consume (Some PUNCTUATION) (Some '','') st) (\<lambda>_ st.
         andThen (E st) (\<lambda>y st.
         andThen (consume (Some PUNCTUATION) (Some '')'') st) (\<lambda>_ st.
           Ok (Vec2Expression x y) st))))))
       else if matches t SAAAM_KEYWORD ''vec3'' then
         andThen (consume None None st) (\<lambda>_ st.
         andThen (consume (Some PUNCTUATION) (Some ''('') st) (\<lambda>_ st.
         andThen (E st) (\<lambda>x st.
         andThen (consume (Some PUNCTUATION) (Some '','') st) (\<lambda>_ st.
         andThen (E st) (\<lambda>y st.
         andThen (consume (Some PUNCTUATION) (Some '','') st) (\<lambda>_ st.
         andThen (E st) (\<lambda>z st.
         andThen (consume (Some PUNCTUATION) (Some '')'') st) (\<lambda>_ st.
           Ok (Vec3Expression x y z) st))))))))
       else if matchesType t IDENTIFIER then
         andThen (consume (Some IDENTIFIER) None st) (\<lambda>token st.
           Ok (Identifier (tok_value token) (Some (isPredefined (tok_value token)))) st)
       else if matchesType t NUMBER then
         andThen (consume (Some NUMBER) None st) (\<lambda>token st.
           Ok (Literal (NumberValue (tok_value token))) st)
       else if matchesType t STRING then
         andThen (consume (Some STRING) None st) (\<lambda>token st.
           Ok (Literal (StringValue (stripQuotes (tok_value token)) (tok_value token))) st)
       else if matches t KEYWORD ''true'' then
         andThen (consume None None st) (\<lambda>_ st. Ok (Literal (BoolValue True)) st)
       else if matches t KEYWORD ''false'' then
         andThen (consume None None st) (\<lambda>_ st. Ok (Literal (BoolValue False)) st)
       else if matches t KEYWORD ''null'' then
         andThen (consume None None st) (\<lambda>_ st. Ok (Literal NullValue) st)
       else if matches t KEYWORD ''undefined'' then
         andThen (consume None None st) (\<lambda>_ st. Ok (Identifier ''undefined'' None) st)
       else if matches t BRACKET ''{'' then parseObjectLiteral E n st
       else if matches t BRACKET ''['' then parseArrayLiteral E n st
       else if matches t PUNCTUATION ''('' then
         andThen (consume None None st) (\<lambda>_ st.
         andThen (E st) (\<lambda>expr st.
         andThen (consume (Some PUNCTUATION) (Some '')'') st) (\<lambda>_ st.
           Ok expr st)))
       else throwError (''Unexpected token: '' @ tok_value t) st)"

text \<open>The \<open>while (true)\<close> loop of \<open>parseCallOrMember\<close>.\<close>

fun callOrMemberLoop :: "Node Parser \<Rightarrow> nat \<Rightarrow> Node \<Rightarrow> Node Parser" where
  "callOrMemberLoop E 0 expression st = Diverges"
| "callOrMemberLoop E (Suc n) expression st =
     withToken st (\<lambda>t.
       if matches t PUNCTUATION ''('' then
         andThen (parseCallExpression E n expression st) (callOrMemberLoop E n)
       else if matches t PUNCTUATION ''.'' then
         andThen (parseMemberExpression expression st) (callOrMemberLoop E n)
       else if matches t BRACKET ''['' then
         andThen (parseIndexExpression E expression st) (callOrMemberLoop E n)
       else Ok expression st)"

definition parseCallOrMember :: "Node Parser \<Rightarrow> nat \<Rightarrow> Node Parser" where
  "parseCallOrMember E n st = andThen (parsePrimary E n st) (callOrMemberLoop E n)"

fun parseUnary :: "Node Parser \<Rightarrow> nat \<Rightarrow> Node Parser" where
  "parseUnary E 0 st = Diverges"
| "parseUnary E (Suc n) st =
     withToken st (\<lambda>t.
       if matches t OPERATOR ''-'' \<or> matches t OPERATOR ''!'' \<or> matches t OPERATOR ''+'' then
         andThen (consume None None st) (\<lambda>operator st.
         andThen (parseUnary E n st) (\<lambda>argument st.
           Ok (UnaryExpression (tok_value operator) argument) st))
       else parseCallOrMember E n st)"

text \<open>
  The six binary levels share one shape: an operand, then
  \<open>while (match("OPERATOR", o1) || ...) { operator = consume().value; right = operand();
  left = BinaryExpression }\<close>. \<open>binaryLoop ops operand\<close> is that loop for the operators
  \<open>ops\<close>.
\<close>

fun binaryLoop :: "string list \<Rightarrow> Node Parser \<Rightarrow> nat \<Rightarrow> Node \<Rightarrow> Node Parser" where
  "binaryLoop ops operand 0 left st = Diverges"
| "binaryLoop ops operand (Suc n) left st =
     withToken st (\<lambda>t.
       if tok_type t = OPERATOR \<and> tok_value t \<in> set ops then
         andThen (consume None None st) (\<lambda>operator st.
         andThen (operand st) (\<lambda>right st.
           binaryLoop ops operand n (BinaryExpression (tok_value operator) left right) st))
       else Ok left st)"

definition binaryLevel :: "string list \<Rightarrow> Node Parser \<Rightarrow> nat \<Rightarrow> Node Parser" where
  "binaryLevel ops operand n st = andThen (operand st) (binaryLoop ops operand n)"

definition parseMultiplicative :: "Node Parser \<Rightarrow> nat \<Rightarrow> Node Parser" where
  "parseMultiplicative E n = binaryLevel [''*'', ''/'', ''%''] (parseUnary E n) n"

definition parseAdditive :: "Node Parser \<Rightarrow> nat \<Rightarrow> Node Parser" where
  "parseAdditive E n = binaryLevel [''+'', ''-''] (parseMultiplicative E n) n"

definition parseComparison :: "Node Parser \<Rightarrow> nat \<Rightarrow> Node Parser" where
  "parseComparison E n = binaryLevel [''>'', ''>='', ''<'', ''<=''] (parseAdditive E n) n"

definition parseEquality :: "Node Parser \<Rightarrow> nat \<Rightarrow> Node Parser" where
  "parseEquality E n = binaryLevel [''=='', ''!=''] (parseComparison E n) n"

definition parseLogicalAnd :: "Node Parser \<Rightarrow> nat \<Rightarrow> Node Parser" where
  "parseLogicalAnd E n = binaryLevel [''&&''] (parseEquality E n) n"

definition parseLogicalOr :: "Node Parser \<Rightarrow> nat \<Rightarrow> Node Parser" where
  "parseLogicalOr E n = binaryLevel [''||''] (parseLogicalAnd E n) n"

definition assignmentOperators :: "string list" where
  "assignmentOperators = [''='', ''+='', ''-='', ''*='', ''/='', ''%='']"

fun parseAssignment :: "Node Parser \<Rightarrow> nat \<Rightarrow> Node Parser" where
  "parseAssignment E 0 st = Diverges"
| "parseAssignment E (Suc n) st =
     andThen (parseLogicalOr E n st) (\<lambda>left st.
       withToken st (\<lambda>t.
         if tok_type t = OPERATOR \<and> tok_value t \<in> set assignmentOperators then
           andThen (consume None None st) (\<lambda>operator st.
           andThen (parseAssignment E n st) (\<lambda>right st.
             Ok (AssignmentExpression (tok_value operator) left right) st))
         else Ok left st))"

primrec parseExpression :: "nat \<Rightarrow> Node Parser" where
  "parseExpression 0 = (\<lambda>st. Diverges)"
| "parseExpression (Suc n) = parseAssignment (parseExpression n) n"

section \<open>The statement parser\<close>

text \<open>
  \<open>S\<close> is the parser the calls of \<open>parseStatement\<close> run; the expression parser
  runs on the same fuel.
\<close>

definition isDeclarationKeyword :: "Token \<Rightarrow> bool" where
  "isDeclarationKeyword t =
     (matches t KEYWORD ''var'' \<or> matches t KEYWORD ''const'' \<or> matches t KEYWORD ''let'')"

text \<open>
  The optional semicolon: \<open>if (match("PUNCTUATION", ";")) consume(); else
  addWarning(message)\<close>.
\<close>

definition optionalSemicolon :: "string \<Rightarrow> unit Parser" where
  "optionalSemicolon message st =
     withToken st (\<lambda>t.
       if matches t PUNCTUATION '';'' then andThen (consume None None st) (\<lambda>_ st. Ok () st)
       else Ok () (addWarning message st))"

definition parseVariableDeclaration :: "nat \<Rightarrow> Node Parser" where
  "parseVariableDeclaration n st =
     andThen (consume None None st) (\<lambda>kind st.
     andThen (consume (Some IDENTIFIER) None st) (\<lambda>identifier st.
     andThen (withToken st (\<lambda>t.
                if matches t OPERATOR ''='' then
                  andThen (consume None None st) (\<lambda>_ st.
                  andThen (parseExpression n st) (\<lambda>e st. Ok (Some e) st))
                else Ok None st)) (\<lambda>init st.
     andThen (optionalSemicolon
                (''Missing semicolon after variable declaration for '' @ [CHR 0x27]
                   @ tok_value identifier @ [CHR 0x27]) st) (\<lambda>_ st.
       Ok (VariableDeclaration (tok_value kind) (tok_value identifier) init) st))))"

text \<open>The \<open>while\<close> loop of \<open>parseBlock\<close>.\<close>

fun blockLoop :: "Node Parser \<Rightarrow> nat \<Rightarrow> Node list \<Rightarrow> Node list Parser" where
  "blockLoop S 0 statements st = Diverges"
| "blockLoop S (Suc n) statements st =
     withToken st (\<lambda>t.
       if \<not> matches t BRACKET ''}'' \<and> \<not> matchesType t EOF then
         andThen (S st) (\<lambda>s st. blockLoop S n (statements @ [s]) st)
       else Ok statements st)"

definition parseBlock :: "Node Parser \<Rightarrow> nat \<Rightarrow> Node Parser" where
  "parseBlock S n st =
     andThen (consume (Some BRACKET) (Some ''{'') st) (\<lambda>_ st.
     andThen (blockLoop S n [] st) (\<lambda>statements st.
       withToken st (\<lambda>t.
         if matchesType t EOF then
           Throw ''Unexpected end of file''
             (addError (''Unexpected end of file, expected '' @ [CHR 0x27] @ ''}'' @ [CHR 0x27]) st)
         else
           andThen (consume (Some BRACKET) (Some ''}'') st) (\<lambda>_ st.
             Ok (Block statements) st))))"

definition parseIfStatement :: "Node Parser \<Rightarrow> nat \<Rightarrow> Node Parser" where
  "parseIfStatement S n st =
     andThen (consume (Some KEYWORD) (Some ''if'') st) (\<lambda>_ st.
     andThen (consume (Some PUNCTUATION) (Some ''('') st) (\<lambda>_ st.
     andThen (parseExpression n st) (\<lambda>condition st.
     andThen (consume (Some PUNCTUATION) (Some '')'') st) (\<lambda>_ st.
     andThen (S st) (\<lambda>consequent st.
       withToken st (\<lambda>t.
         if matches t KEYWORD ''else'' then
           andThen (consume None None st) (\<lambda>_ st.
           andThen (S st) (\<lambda>alternate st.
             Ok (IfStatement condition consequent (Some alternate)) st))
         else Ok (IfStatement condition consequent None) st))))))"

definition parseForInit :: "nat \<Rightarrow> Node option Parser" where
  "parseForInit n st =
     withToken st (\<lambda>t.
       if \<not> matches t PUNCTUATION '';'' then
         (if isDeclarationKeyword t then
            andThen (parseVariableDeclaration n st) (\<lambda>init st. Ok (Some init) st)
          else
            andThen (parseExpression n st) (\<lambda>init st.
            andThen (consume (Some PUNCTUATION) (Some '';'') st) (\<lambda>_ st.
              Ok (Some init) st)))
       else andThen (consume (Some PUNCTUATION) (Some '';'') st) (\<lambda>_ st. Ok None st))"

definition parseForLoop :: "Node Parser \<Rightarrow> nat \<Rightarrow> Node Parser" where
  "parseForLoop S n st =
     andThen (consume (Some KEYWORD) (Some ''for'') st) (\<lambda>_ st.
     andThen (consume (Some PUNCTUATION) (Some ''('') st) (\<lambda>_ st.
     andThen (parseForInit n st) (\<lambda>init st.
     andThen (withToken st (\<lambda>t.
                if \<not> matches t PUNCTUATION '';'' then parseExpression n st
                else Ok (Literal (BoolValue True)) st)) (\<lambda>condition st.
     andThen (consume (Some PUNCTUATION) (Some '';'') st) (\<lambda>_ st.
     andThen (withToken st (\<lambda>t.
                if \<not> matches t PUNCTUATION '')'' then
                  andThen (parseExpression n st) (\<lambda>e st. Ok (Some e) st)
                else Ok None st)) (\<lambda>update st.
     andThen (consume (Some PUNCTUATION) (Some '')'') st) (\<lambda>_ st.
     andThen (S st) (\<lambda>body st.
       Ok (ForLoop init (Some condition) update body) st))))))))"

definition parseWhileLoop :: "Node Parser \<Rightarrow> nat \<Rightarrow> Node Parser" where
  "parseWhileLoop S n st =
     andThen (consume (Some KEYWORD) (Some ''while'') st) (\<lambda>_ st.
     andThen (consume (Some PUNCTUATION) (Some ''('') st) (\<lambda>_ st.
     andThen (parseExpression n st) (\<lambda>condition st.
     andThen (consume (Some PUNCTUATION) (Some '')'') st) (\<lambda>_ st.
     andThen (S st) (\<lambda>body st.
       Ok (WhileLoop condition body) st)))))"

definition parseDoWhileLoop :: "Node Parser \<Rightarrow> nat \<Rightarrow> Node Parser" where
  "parseDoWhileLoop S n st =
     andThen (consume (Some KEYWORD) (Some ''do'') st) (\<lambda>_ st.
     andThen (S st) (\<lambda>body st.
     andThen (consume (Some KEYWORD) (Some ''while'') st) (\<lambda>_ st.
     andThen (consume (Some PUNCTUATION) (Some ''('') st) (\<lambda>_ st.
     andThen (parseExpression n st) (\<lambda>condition st.
     andThen (consume (Some PUNCTUATION) (Some '')'') st) (\<lambda>_ st.
     andThen (optionalSemicolon ''Missing semicolon after do-while statement'' st) (\<lambda>_ st.
       Ok (DoWhileLoop body condition) st)))))))"

text \<open>
  The statement loop of a \<open>case\<close> or \<open>default\<close> clause. \<open>stopAtDefault\<close> holds
  in the loop of a \<open>case\<close> clause only: the loop of a \<open>default\<close> clause does not stop
  at another \<open>default\<close>.
\<close>

fun consequentLoop :: "Node Parser \<Rightarrow> bool \<Rightarrow> nat \<Rightarrow> Node list \<Rightarrow> Node list Parser" where
  "consequentLoop S stopAtDefault 0 consequent st = Diverges"
| "consequentLoop S stopAtDefault (Suc n) consequent st =
     withToken st (\<lambda>t.
       if \<not> matches t KEYWORD ''case''
          \<and> \<not> (stopAtDefault \<and> matches t KEYWORD ''default'')
          \<and> \<not> matches t BRACKET ''}''
          \<and> \<not> matchesType t EOF then
         andThen (S st) (\<lambda>s st. consequentLoop S stopAtDefault n (consequent @ [s]) st)
       else Ok consequent st)"

text \<open>
  The outer loop of \<open>parseSwitchStatement\<close> with the two variables it updates,
  \<open>cases\<close> and \<open>defaultCase\<close>.
\<close>

fun switchLoop ::
  "Node Parser \<Rightarrow> nat \<Rightarrow> SwitchCase list \<Rightarrow> SwitchCase option
     \<Rightarrow> (SwitchCase list \<times> SwitchCase option) Parser" where
  "switchLoop S 0 cases defaultCase st = Diverges"
| "switchLoop S (Suc n) cases defaultCase st =
     withToken st (\<lambda>t.
       if \<not> matches t BRACKET ''}'' \<and> \<not> matchesType t EOF then
         (if matches t KEYWORD ''case'' then
            andThen (consume None None st) (\<lambda>_ st.
            andThen (parseExpression n st) (\<lambda>test st.
            andThen (consume (Some PUNCTUATION) (Some '':'') st) (\<lambda>_ st.
            andThen (consequentLoop S True n [] st) (\<lambda>consequent st.
              switchLoop S n (cases @ [SwitchCase (Some test) consequent]) defaultCase st))))
          else if matches t KEYWORD ''default'' then
            andThen (consume None None st) (\<lambda>_ st.
            andThen (consume (Some PUNCTUATION) (Some '':'') st) (\<lambda>_ st.
            andThen (consequentLoop S False n [] st) (\<lambda>consequent st.
              switchLoop S n cases (Some (SwitchCase None consequent)) st)))
          else
            andThen (consume None None
                       (addError (''Expected '' @ [CHR 0x27] @ ''case'' @ [CHR 0x27] @ '' or ''
                          @ [CHR 0x27] @ ''default'' @ [CHR 0x27] @ '' in switch statement'') st))
              (\<lambda>_ st. switchLoop S n cases defaultCase st))
       else Ok (cases, defaultCase) st)"

definition parseSwitchStatement :: "Node Parser \<Rightarrow> nat \<Rightarrow> Node Parser" where
  "parseSwitchStatement S n st =
     andThen (consume (Some KEYWORD) (Some ''switch'') st) (\<lambda>_ st.
     andThen (consume (Some PUNCTUATION) (Some ''('') st) (\<lambda>_ st.
     andThen (parseExpression n st) (\<lambda>discriminant st.
     andThen (consume (Some PUNCTUATION) (Some '')'') st) (\<lambda>_ st.
     andThen (consume (Some BRACKET) (Some ''{'') st) (\<lambda>_ st.
     andThen (switchLoop S n [] None st) (\<lambda>(cases, defaultCase) st.
     andThen (consume (Some BRACKET) (Some ''}'') st) (\<lambda>_ st.
       Ok (SwitchStatement discriminant
             (case defaultCase of None \<Rightarrow> cases | Some d \<Rightarrow> cases @ [d])) st)))))))"

definition parseReturnStatement :: "nat \<Rightarrow> Node Parser" where
  "parseReturnStatement n st =
     andThen (consume (Some KEYWORD) (Some ''return'') st) (\<lambda>_ st.
     andThen (withToken st (\<lambda>t.
                if \<not> matches t PUNCTUATION '';'' \<and> \<not> matches t BRACKET ''}'' then
                  andThen (parseExpression n st) (\<lambda>e st. Ok (Some e) st)
                else Ok None st)) (\<lambda>argument st.
       withToken st (\<lambda>t.
         if matches t PUNCTUATION '';'' then
           andThen (consume None None st) (\<lambda>_ st. Ok (ReturnStatement argument) st)
         else if \<not> matches t BRACKET ''}'' then
           Ok (ReturnStatement argument)
             (addWarning ''Missing semicolon after return statement'' st)
         else Ok (ReturnStatement argument) st)))"

definition parseBreakStatement :: "Node Parser" where
  "parseBreakStatement st =
     andThen (consume (Some KEYWORD) (Some ''break'') st) (\<lambda>_ st.
     andThen (optionalSemicolon ''Missing semicolon after break statement'' st) (\<lambda>_ st.
       Ok BreakStatement st))"

definition parseContinueStatement :: "Node Parser" where
  "parseContinueStatement st =
     andThen (consume (Some KEYWORD) (Some ''continue'') st) (\<lambda>_ st.
     andThen (optionalSemicolon ''Missing semicolon after continue statement'' st) (\<lambda>_ st.
       Ok ContinueStatement st))"

definition parseExpressionStatement :: "nat \<Rightarrow> Node Parser" where
  "parseExpressionStatement n st =
     andThen (parseExpression n st) (\<lambda>expr st.
     andThen (optionalSemicolon ''Missing semicolon after expression'' st) (\<lambda>_ st.
       Ok (ExpressionStatement expr) st))"

text \<open>The body of \<open>parseStatement\<close>; its last case is the expression statement.\<close>

definition statementBody :: "Node Parser \<Rightarrow> nat \<Rightarrow> Node Parser" where
  "statementBody S n st =
     withToken st (\<lambda>t.
       if isDeclarationKeyword t then parseVariableDeclaration n st
       else if matches t KEYWORD ''if'' then parseIfStatement S n st
       else if matches t KEYWORD ''for'' then parseForLoop S n st
       else if matches t KEYWORD ''while'' then parseWhileLoop S n st
       else if matches t KEYWORD ''do'' then parseDoWhileLoop S n st
       else if matches t KEYWORD ''switch'' then parseSwitchStatement S n st
       else if matches t KEYWORD ''return'' then parseReturnStatement n st
       else if matches t KEYWORD ''break'' then parseBreakStatement st
       else if matches t KEYWORD ''continue'' then parseContinueStatement st
       else if matches t BRACKET ''{'' then parseBlock S n st
       else if matches t PUNCTUATION '';'' then
         andThen (consume None None st) (\<lambda>_ st. Ok EmptyStatement st)
       else parseExpressionStatement n st)"

primrec parseStatement :: "nat \<Rightarrow> Node Parser" where
  "parseStatement 0 = (\<lambda>st. Diverges)"
| "parseStatement (Suc n) = statementBody (parseStatement n) n"

text \<open>The \<open>do ... while\<close> loop over the parameters of \<open>parseFunctionDefinition\<close>.\<close>

fun parseParams :: "nat \<Rightarrow> string list \<Rightarrow> string list Parser" where
  "parseParams 0 params st = Diverges"
| "parseParams (Suc n) params st =
     andThen (consume (Some IDENTIFIER) None st) (\<lambda>p st.
       withToken st (\<lambda>t.
         if matches t PUNCTUATION '','' then
           andThen (consume None None st) (\<lambda>_ st. parseParams n (params @ [tok_value p]) st)
         else Ok (params @ [tok_value p]) st))"

definition lifecycleWarnings :: "string \<Rightarrow> string list \<Rightarrow> PState \<Rightarrow> PState" where
  "lifecycleWarnings name params st =
     (if name \<in> set [''create'', ''step'', ''draw'', ''on_collision''] then
        (let st1 = (if name = ''step'' \<and> length params = 0
                    then addWarning (''The '' @ [CHR 0x27] @ ''step'' @ [CHR 0x27]
                           @ '' function should have a '' @ [CHR 0x27] @ ''deltaTime''
                           @ [CHR 0x27] @ '' parameter for time-based movement'') st
                    else st)
         in if name = ''draw'' \<and> length params = 0
            then addWarning (''The '' @ [CHR 0x27] @ ''draw'' @ [CHR 0x27]
                   @ '' function should have a '' @ [CHR 0x27] @ ''ctx'' @ [CHR 0x27]
                   @ '' parameter for drawing context'') st1
            else st1)
      else st)"

definition parseFunctionDefinition :: "nat \<Rightarrow> Node Parser" where
  "parseFunctionDefinition n st =
     andThen (consume (Some KEYWORD) (Some ''function'') st) (\<lambda>_ st.
     andThen (consume (Some IDENTIFIER) None st) (\<lambda>name st.
     andThen (consume (Some PUNCTUATION) (Some ''('') st) (\<lambda>_ st.
     andThen (withToken st (\<lambda>t.
                if \<not> matches t PUNCTUATION '')'' then parseParams n [] st
                else Ok [] st)) (\<lambda>params st.
     andThen (consume (Some PUNCTUATION) (Some '')'') st) (\<lambda>_ st.
     andThen (parseBlock (parseStatement n) n st) (\<lambda>body st.
       Ok (FunctionDefinition (tok_value name) params body)
         (lifecycleWarnings (tok_value name) params st)))))))"

section \<open>The program loop and its recovery\<close>

text \<open>
  The recovery of \<open>parseProgram\<close>: skip to the next \<open>;\<close>, \<open>}\<close> or \<open>EOF\<close>
  and consume it unless it is \<open>EOF\<close>. Running off the token list throws the TypeError of
  \<open>peek\<close>, out of the \<open>catch\<close> block.
\<close>

definition isSyncToken :: "Token \<Rightarrow> bool" where
  "isSyncToken t = (matches t PUNCTUATION '';'' \<or> matches t BRACKET ''}'')"

fun skipToSync :: "Token list \<Rightarrow> Token list option" where
  "skipToSync [] = None"
| "skipToSync (t # ts) =
     (if \<not> isSyncToken t \<and> \<not> matchesType t EOF then skipToSync ts else Some (t # ts))"

definition recover :: "unit Parser" where
  "recover st =
     (case skipToSync (toks st) of
        None \<Rightarrow> Throw undefinedToken (st\<lparr>toks := []\<rparr>)
      | Some ts \<Rightarrow>
          (case ts of [] \<Rightarrow> Throw undefinedToken (st\<lparr>toks := []\<rparr>)
           | t # rest \<Rightarrow> Ok () (st\<lparr>toks := (if isSyncToken t then rest else ts)\<rparr>)))"

text \<open>The body of the \<open>try\<close> block of \<open>parseProgram\<close>.\<close>

definition programItem :: "nat \<Rightarrow> Node Parser" where
  "programItem n st =
     withToken st (\<lambda>t.
       if isDeclarationKeyword t then parseVariableDeclaration n st
       else if matches t KEYWORD ''function'' then parseFunctionDefinition n st
       else parseStatement n st)"

fun programLoop :: "nat \<Rightarrow> Node list \<Rightarrow> Node list Parser" where
  "programLoop 0 body st = Diverges"
| "programLoop (Suc n) body st =
     withToken st (\<lambda>t.
       if \<not> matchesType t EOF then
         (case programItem n st of
            Ok node st \<Rightarrow> programLoop n (body @ [node]) st
          | Throw message st \<Rightarrow>
              andThen (recover (addError (''Parse error: '' @ message) st))
                (\<lambda>_ st. programLoop n body st)
          | Diverges \<Rightarrow> Diverges)
       else Ok body st)"

definition parseProgram :: "nat \<Rightarrow> Node Parser" where
  "parseProgram n st = andThen (programLoop n [] st) (\<lambda>body st. Ok (Program body) st)"

text \<open>
  \<open>parse\<close>: the syntax tree, or \<open>null\<close> after an exception, with the state; \<open>None\<close>
  when \<open>parseProgram\<close> does not return.
\<close>

definition parse :: "nat \<Rightarrow> PState \<Rightarrow> (Node option \<times> PState) option" where
  "parse n st =
     (case parseProgram n st of
        Ok ast st \<Rightarrow> Some (Some ast, st)
      | Throw message st \<Rightarrow> Some (None, addError (''Parsing error: '' @ message) st)
      | Diverges \<Rightarrow> None)"

section \<open>Static analysis\<close>

text \<open>
  \<open>variableUsage\<close> is a \<open>Map\<close>: an association list in insertion order, where
  setting a key that is present keeps its place. \<open>visit\<close> threads the map and the
  warnings. Its default case walks the object-valued fields of a node in the order the
  parser wrote them.
\<close>

record Usage =
  declared :: bool
  used :: bool

type_synonym UsageMap = "(string \<times> Usage) list"

fun mapSet :: "string \<Rightarrow> Usage \<Rightarrow> UsageMap \<Rightarrow> UsageMap" where
  "mapSet k u [] = [(k, u)]"
| "mapSet k u ((k', u') # m) = (if k = k' then (k, u) # m else (k', u') # mapSet k u m)"

type_synonym AState = "UsageMap \<times> string list"

definition visitVariable :: "string \<Rightarrow> AState \<Rightarrow> AState" where
  "visitVariable identifier a =
     (case a of (m, ws) \<Rightarrow>
       (case map_of m identifier of
          Some usage \<Rightarrow>
            (mapSet identifier (usage\<lparr>declared := True\<rparr>) m,
             if declared usage
             then ws @ [''Variable '' @ [CHR 0x27] @ identifier @ [CHR 0x27]
                         @ '' is already declared'']
             else ws)
        | None \<Rightarrow> (mapSet identifier \<lparr>declared = True, used = False\<rparr> m, ws)))"

definition visitParam :: "AState \<Rightarrow> string \<Rightarrow> AState" where
  "visitParam a param =
     (case a of (m, ws) \<Rightarrow> (mapSet param \<lparr>declared = True, used = False\<rparr> m, ws))"

definition visitIdentifier :: "string \<Rightarrow> AState \<Rightarrow> AState" where
  "visitIdentifier name a =
     (case a of (m, ws) \<Rightarrow>
       if isPredefined name then a
       else (case map_of m name of
               Some usage \<Rightarrow> (mapSet name (usage\<lparr>used := True\<rparr>) m, ws)
             | None \<Rightarrow> (mapSet name \<lparr>declared = False, used = True\<rparr> m, ws)))"

text \<open>
  \<open>visit\<close> and \<open>generateNode\<close> call themselves once for every level of the tree, and
  the host raises a \<open>RangeError\<close> when its call stack is full. \<open>stack\<close> is the number
  of nested calls of a tree walker the host's stack holds. A walk either returns, or it
  overflows with the state it had reached.
\<close>

datatype 'a Walk = Returns 'a | Overflows 'a

fun walkThen :: "'a Walk \<Rightarrow> ('a \<Rightarrow> 'a Walk) \<Rightarrow> 'a Walk" where
  "walkThen (Returns a) f = f a"
| "walkThen (Overflows a) f = Overflows a"

fun walkList :: "('x \<Rightarrow> 'a \<Rightarrow> 'a Walk) \<Rightarrow> 'x list \<Rightarrow> 'a \<Rightarrow> 'a Walk" where
  "walkList f [] a = Returns a"
| "walkList f (x # xs) a = walkThen (f x a) (walkList f xs)"

definition walkOption :: "('x \<Rightarrow> 'a \<Rightarrow> 'a Walk) \<Rightarrow> 'x option \<Rightarrow> 'a \<Rightarrow> 'a Walk" where
  "walkOption f x a = (case x of None \<Rightarrow> Returns a | Some e \<Rightarrow> f e a)"

fun visit :: "nat \<Rightarrow> Node \<Rightarrow> AState \<Rightarrow> AState Walk"
  and visitCase :: "nat \<Rightarrow> SwitchCase \<Rightarrow> AState \<Rightarrow> AState Walk"
  and visitProperty :: "nat \<Rightarrow> Property \<Rightarrow> AState \<Rightarrow> AState Walk" where
  "visit 0 node a = Overflows a"
| "visitCase 0 c a = Overflows a"
| "visitProperty 0 p a = Overflows a"
| "visit (Suc d) (VariableDeclaration kind identifier init) a =
     walkOption (visit d) init (visitVariable identifier a)"
| "visit (Suc d) (FunctionDefinition name params body) a =
     visit d body (foldl visitParam a params)"
| "visit (Suc d) (Identifier name p) a = Returns (visitIdentifier name a)"
| "visit (Suc d) (Program body) a = walkList (visit d) body a"
| "visit (Suc d) (Block statements) a = walkList (visit d) statements a"
| "visit (Suc d) (ExpressionStatement expression) a = visit d expression a"
| "visit (Suc d) (IfStatement condition consequent alternate) a =
     walkThen (visit d condition a) (\<lambda>a.
     walkThen (visit d consequent a) (walkOption (visit d) alternate))"
| "visit (Suc d) (ForLoop init condition update body) a =
     walkThen (walkOption (visit d) init a) (\<lambda>a.
     walkThen (walkOption (visit d) condition a) (\<lambda>a.
     walkThen (walkOption (visit d) update a) (visit d body)))"
| "visit (Suc d) (WhileLoop condition body) a = walkThen (visit d condition a) (visit d body)"
| "visit (Suc d) (DoWhileLoop body condition) a = walkThen (visit d body a) (visit d condition)"
| "visit (Suc d) (SwitchStatement discriminant cases) a =
     walkThen (visit d discriminant a) (walkList (visitCase d) cases)"
| "visitCase (Suc d) (SwitchCase test consequent) a =
     walkThen (walkOption (visit d) test a) (walkList (visit d) consequent)"
| "visit (Suc d) (ReturnStatement argument) a = walkOption (visit d) argument a"
| "visit (Suc d) BreakStatement a = Returns a"
| "visit (Suc d) ContinueStatement a = Returns a"
| "visit (Suc d) EmptyStatement a = Returns a"
| "visit (Suc d) (AssignmentExpression operator left right) a =
     walkThen (visit d left a) (visit d right)"
| "visit (Suc d) (BinaryExpression operator left right) a =
     walkThen (visit d left a) (visit d right)"
| "visit (Suc d) (UnaryExpression operator argument) a = visit d argument a"
| "visit (Suc d) (CallExpression callee args) a =
     walkThen (visit d callee a) (walkList (visit d) args)"
| "visit (Suc d) (MemberExpression object property computed) a =
     (case property of Inl name \<Rightarrow> visit d object a
      | Inr e \<Rightarrow> walkThen (visit d object a) (visit d e))"
| "visit (Suc d) ThisExpression a = Returns a"
| "visit (Suc d) (Vec2Expression x y) a = walkThen (visit d x a) (visit d y)"
| "visit (Suc d) (Vec3Expression x y z) a =
     walkThen (visit d x a) (\<lambda>a. walkThen (visit d y a) (visit d z))"
| "visit (Suc d) (ObjectExpression properties) a = walkList (visitProperty d) properties a"
| "visitProperty (Suc d) (Property key v computed) a = walkThen (visit d key a) (visit d v)"
| "visit (Suc d) (ArrayExpression elements) a = walkList (walkOption (visit d)) elements a"
| "visit (Suc d) (Literal v) a = Returns a"

text \<open>The loop over \<open>variableUsage.entries()\<close> after the walk.\<close>

definition usageWarnings :: "string \<times> Usage \<Rightarrow> string list" where
  "usageWarnings e =
     (case e of (name, usage) \<Rightarrow>
       (if declared usage \<and> \<not> used usage
        then [''Variable '' @ [CHR 0x27] @ name @ [CHR 0x27] @ '' is declared but never used'']
        else [])
       @ (if \<not> declared usage \<and> used usage \<and> \<not> isPredefined name
          then [''Variable '' @ [CHR 0x27] @ name @ [CHR 0x27] @ '' is used but not declared'']
          else []))"

text \<open>
  \<open>analyzeCode\<close> on the warnings recorded so far. When the walk overflows, the warnings
  are those recorded up to there, and the loop over the map is not reached.
\<close>

definition analyzeCode :: "nat \<Rightarrow> Node option \<Rightarrow> string list \<Rightarrow> string list Walk" where
  "analyzeCode stack ast ws =
     (case ast of None \<Rightarrow> Returns ws
      | Some root \<Rightarrow>
          (case visit stack root ([], ws) of
             Overflows (m, ws') \<Rightarrow> Overflows ws'
           | Returns (m, ws') \<Rightarrow> Returns (ws' @ concat (map usageWarnings m))))"

section \<open>Code generation\<close>

text \<open>\<open>code.split("\n")\<close> and \<open>indent\<close>.\<close>

fun splitLines :: "string \<Rightarrow> string list" where
  "splitLines [] = [[]]"
| "splitLines (c # s) =
     (if c = CHR 0x0A then [] # splitLines s
      else (case splitLines s of [] \<Rightarrow> [[c]] | l # ls \<Rightarrow> (c # l) # ls))"

definition indent :: "string \<Rightarrow> string" where
  "indent code = join [CHR 0x0A] (map (\<lambda>line. ''  '' @ line) (splitLines code))"

text \<open>\<open>value.replace(/"/g, '\\"')\<close>\<close>

definition escapeQuotes :: "string \<Rightarrow> string" where
  "escapeQuotes s = concat (map (\<lambda>c. if c = CHR 0x22 then [CHR 0x5C, CHR 0x22] else [c]) s)"

text \<open>The rewriting \<open>switch\<close> of the \<open>Identifier\<close> case.\<close>

definition rewriteTable :: "(string \<times> string) list" where
  "rewriteTable =
     [(''keyboard_check'', ''SAAAM.keyboardCheck''),
      (''keyboard_check_pressed'', ''SAAAM.keyboardCheckPressed''),
      (''keyboard_check_released'', ''SAAAM.keyboardCheckReleased''),
      (''draw_sprite'', ''SAAAM.drawSprite''),
      (''draw_text'', ''SAAAM.drawText''),
      (''draw_rectangle'', ''SAAAM.drawRectangle''),
      (''draw_circle'', ''SAAAM.drawCircle''),
      (''draw_line'', ''SAAAM.drawLine''),
      (''play_sound'', ''SAAAM.playSound''),
      (''play_music'', ''SAAAM.playMusic''),
      (''check_collision'', ''SAAAM.checkCollision''),
      (''point_distance'', ''SAAAM.pointDistance''),
      (''delta_time'', ''SAAAM.deltaTime''),
      (''current_time'', ''SAAAM.currentTime''),
      (''vk_left'', ''SAAAM.vk.left''),
      (''vk_right'', ''SAAAM.vk.right''),
      (''vk_up'', ''SAAAM.vk.up''),
      (''vk_down'', ''SAAAM.vk.down''),
      (''vk_space'', ''SAAAM.vk.space''),
      (''vk_enter'', ''SAAAM.vk.enter''),
      (''vk_escape'', ''SAAAM.vk.escape''),
      (''vk_shift'', ''SAAAM.vk.shift'')]"

definition generateIdentifier :: "string \<Rightarrow> string" where
  "generateIdentifier name = (case map_of rewriteTable name of Some t \<Rightarrow> t | None \<Rightarrow> name)"

text \<open>
  \<open>fmt\<close> is the host's \<open>Number.parseFloat(lexeme).toString()\<close>, the decimal form of the
  double a number lexeme denotes.
\<close>

definition generateLiteral :: "(string \<Rightarrow> string) \<Rightarrow> LiteralValue \<Rightarrow> string" where
  "generateLiteral fmt v =
     (case v of
        StringValue s raw \<Rightarrow> [CHR 0x22] @ escapeQuotes s @ [CHR 0x22]
      | NullValue \<Rightarrow> ''null''
      | NumberValue lexeme \<Rightarrow> fmt lexeme
      | BoolValue b \<Rightarrow> (if b then ''true'' else ''false''))"

text \<open>
  The key of a property that is not computed: the name of an identifier, else the
  \<open>value\<close> field between double quotes, which only a literal has.
\<close>

definition propertyName :: "(string \<Rightarrow> string) \<Rightarrow> Node \<Rightarrow> string" where
  "propertyName fmt key =
     (case key of
        Identifier name _ \<Rightarrow> name
      | Literal l \<Rightarrow>
          [CHR 0x22]
          @ (case l of StringValue s raw \<Rightarrow> s | NullValue \<Rightarrow> ''null''
             | NumberValue lexeme \<Rightarrow> fmt lexeme
             | BoolValue b \<Rightarrow> (if b then ''true'' else ''false''))
          @ [CHR 0x22]
      | _ \<Rightarrow> [CHR 0x22] @ ''undefined'' @ [CHR 0x22])"

fun generateNode :: "(string \<Rightarrow> string) \<Rightarrow> Node \<Rightarrow> string"
  and generateCase :: "(string \<Rightarrow> string) \<Rightarrow> SwitchCase \<Rightarrow> string"
  and generateProperty :: "(string \<Rightarrow> string) \<Rightarrow> Property \<Rightarrow> string" where
  "generateNode fmt (Program body) = join [CHR 0x0A] (map (generateNode fmt) body)"
| "generateNode fmt (VariableDeclaration kind identifier init) =
     kind @ '' '' @ identifier
     @ (case init of None \<Rightarrow> [] | Some e \<Rightarrow> '' = '' @ generateNode fmt e) @ '';''"
| "generateNode fmt (FunctionDefinition name params body) =
     ''function '' @ name @ ''('' @ join '', '' params @ '') '' @ generateNode fmt body"
| "generateNode fmt (Block statements) =
     ''{'' @ [CHR 0x0A] @ indent (join [CHR 0x0A] (map (generateNode fmt) statements))
     @ [CHR 0x0A] @ ''}''"
| "generateNode fmt (ExpressionStatement expression) = generateNode fmt expression @ '';''"
| "generateNode fmt (IfStatement condition consequent alternate) =
     ''if ('' @ generateNode fmt condition @ '') '' @ generateNode fmt consequent
     @ (case alternate of None \<Rightarrow> [] | Some e \<Rightarrow> '' else '' @ generateNode fmt e)"
| "generateNode fmt (ForLoop init condition update body) =
     ''for (''
     @ (case init of None \<Rightarrow> []
        | Some i \<Rightarrow> generateNode fmt i
            @ (case i of VariableDeclaration _ _ _ \<Rightarrow> [] | _ \<Rightarrow> '';''))
     @ '' '' @ (case condition of None \<Rightarrow> ''true'' | Some c \<Rightarrow> generateNode fmt c)
     @ ''; '' @ (case update of None \<Rightarrow> [] | Some u \<Rightarrow> generateNode fmt u)
     @ '') '' @ generateNode fmt body"
| "generateNode fmt (WhileLoop condition body) =
     ''while ('' @ generateNode fmt condition @ '') '' @ generateNode fmt body"
| "generateNode fmt (DoWhileLoop body condition) =
     ''do '' @ generateNode fmt body @ '' while ('' @ generateNode fmt condition @ '');''"
| "generateNode fmt (SwitchStatement discriminant cases) =
     ''switch ('' @ generateNode fmt discriminant @ '') {'' @ [CHR 0x0A]
     @ concat (map (generateCase fmt) cases) @ ''}''"
| "generateCase fmt (SwitchCase test consequent) =
     (case test of None \<Rightarrow> ''default:'' @ [CHR 0x0A]
      | Some e \<Rightarrow> ''case '' @ generateNode fmt e @ '':'' @ [CHR 0x0A])
     @ concat (map (\<lambda>stmt. indent (generateNode fmt stmt) @ [CHR 0x0A]) consequent)"
| "generateNode fmt (ReturnStatement argument) =
     (case argument of None \<Rightarrow> ''return;''
      | Some e \<Rightarrow> ''return '' @ generateNode fmt e @ '';'')"
| "generateNode fmt BreakStatement = ''break;''"
| "generateNode fmt ContinueStatement = ''continue;''"
| "generateNode fmt EmptyStatement = '';''"
| "generateNode fmt (AssignmentExpression operator left right) =
     generateNode fmt left @ '' '' @ operator @ '' '' @ generateNode fmt right"
| "generateNode fmt (BinaryExpression operator left right) =
     generateNode fmt left @ '' '' @ operator @ '' '' @ generateNode fmt right"
| "generateNode fmt (UnaryExpression operator argument) = operator @ generateNode fmt argument"
| "generateNode fmt (CallExpression callee args) =
     generateNode fmt callee @ ''('' @ join '', '' (map (generateNode fmt) args) @ '')''"
| "generateNode fmt (MemberExpression object property computed) =
     (case property of
        Inr e \<Rightarrow> generateNode fmt object @ ''['' @ generateNode fmt e @ '']''
      | Inl name \<Rightarrow> generateNode fmt object @ ''.'' @ name)"
| "generateNode fmt ThisExpression = ''this''"
| "generateNode fmt (Vec2Expression x y) =
     ''{ x: '' @ generateNode fmt x @ '', y: '' @ generateNode fmt y @ '' }''"
| "generateNode fmt (Vec3Expression x y z) =
     ''{ x: '' @ generateNode fmt x @ '', y: '' @ generateNode fmt y
     @ '', z: '' @ generateNode fmt z @ '' }''"
| "generateNode fmt (ObjectExpression properties) =
     (if properties = [] then ''{}''
      else ''{ '' @ join '', '' (map (generateProperty fmt) properties) @ '' }'')"
| "generateProperty fmt (Property key v computed) =
     (if computed then ''['' @ generateNode fmt key @ '']: '' @ generateNode fmt v
      else propertyName fmt key @ '': '' @ generateNode fmt v)"
| "generateNode fmt (ArrayExpression elements) =
     ''['' @ join '', '' (map (\<lambda>e. case e of None \<Rightarrow> [] | Some x \<Rightarrow> generateNode fmt x) elements)
     @ '']''"
| "generateNode fmt (Identifier name p) = generateIdentifier name"
| "generateNode fmt (Literal v) = generateLiteral fmt v"

text \<open>
  The number of nested calls of \<open>generateNode\<close> on a tree. The clauses of a
  \<open>switch\<close> and the properties of an object are written by loops inside the call for
  their parent, and the key of a property that is not computed is not generated.
\<close>

fun generateDepth :: "Node \<Rightarrow> nat"
  and caseDepth :: "SwitchCase \<Rightarrow> nat"
  and propertyDepth :: "Property \<Rightarrow> nat" where
  "generateDepth (Program body) = Suc (foldr max (map generateDepth body) 0)"
| "generateDepth (VariableDeclaration kind identifier init) =
     Suc (case init of None \<Rightarrow> 0 | Some e \<Rightarrow> generateDepth e)"
| "generateDepth (FunctionDefinition name params body) = Suc (generateDepth body)"
| "generateDepth (Block statements) = Suc (foldr max (map generateDepth statements) 0)"
| "generateDepth (ExpressionStatement expression) = Suc (generateDepth expression)"
| "generateDepth (IfStatement condition consequent alternate) =
     Suc (max (generateDepth condition)
            (max (generateDepth consequent)
               (case alternate of None \<Rightarrow> 0 | Some e \<Rightarrow> generateDepth e)))"
| "generateDepth (ForLoop init condition update body) =
     Suc (max (case init of None \<Rightarrow> 0 | Some e \<Rightarrow> generateDepth e)
            (max (case condition of None \<Rightarrow> 0 | Some e \<Rightarrow> generateDepth e)
               (max (case update of None \<Rightarrow> 0 | Some e \<Rightarrow> generateDepth e)
                  (generateDepth body))))"
| "generateDepth (WhileLoop condition body) =
     Suc (max (generateDepth condition) (generateDepth body))"
| "generateDepth (DoWhileLoop body condition) =
     Suc (max (generateDepth body) (generateDepth condition))"
| "generateDepth (SwitchStatement discriminant cases) =
     Suc (max (generateDepth discriminant) (foldr max (map caseDepth cases) 0))"
| "caseDepth (SwitchCase test consequent) =
     max (case test of None \<Rightarrow> 0 | Some e \<Rightarrow> generateDepth e)
       (foldr max (map generateDepth consequent) 0)"
| "generateDepth (ReturnStatement argument) =
     Suc (case argument of None \<Rightarrow> 0 | Some e \<Rightarrow> generateDepth e)"
| "generateDepth BreakStatement = 1"
| "generateDepth ContinueStatement = 1"
| "generateDepth EmptyStatement = 1"
| "generateDepth (AssignmentExpression operator left right) =
     Suc (max (generateDepth left) (generateDepth right))"
| "generateDepth (BinaryExpression operator left right) =
     Suc (max (generateDepth left) (generateDepth right))"
| "generateDepth (UnaryExpression operator argument) = Suc (generateDepth argument)"
| "generateDepth (CallExpression callee args) =
     Suc (max (generateDepth callee) (foldr max (map generateDepth args) 0))"
| "generateDepth (MemberExpression object property computed) =
     Suc (case property of Inl name \<Rightarrow> generateDepth object
          | Inr e \<Rightarrow> max (generateDepth object) (generateDepth e))"
| "generateDepth ThisExpression = 1"
| "generateDepth (Vec2Expression x y) = Suc (max (generateDepth x) (generateDepth y))"
| "generateDepth (Vec3Expression x y z) =
     Suc (max (generateDepth x) (max (generateDepth y) (generateDepth z)))"
| "generateDepth (ObjectExpression properties) =
     Suc (foldr max (map propertyDepth properties) 0)"
| "propertyDepth (Property key v computed) =
     (if computed then max (generateDepth key) (generateDepth v) else generateDepth v)"
| "generateDepth (ArrayExpression elements) =
     Suc (foldr max (map (\<lambda>e. case e of None \<Rightarrow> 0 | Some x \<Rightarrow> generateDepth x) elements) 0)"
| "generateDepth (Identifier name p) = 1"
| "generateDepth (Literal v) = 1"

section \<open>The facade\<close>

record CompileResult =
  success :: bool
  js :: "string option"
  res_errors :: "string list"
  res_warnings :: "string list"
  res_ast :: "Node option"

text \<open>
  \<open>generate\<close>; \<open>None\<close> when \<open>generateNode\<close> overflows the stack, which is when
  the tree is deeper than the stack holds calls.
\<close>

definition generate :: "nat \<Rightarrow> (string \<Rightarrow> string) \<Rightarrow> Node option \<Rightarrow> string option" where
  "generate stack fmt ast =
     (case ast of None \<Rightarrow> Some ''// No AST to generate code from''
      | Some root \<Rightarrow>
          if generateDepth root \<le> stack then Some (generateNode fmt root) else None)"

text \<open>The \<open>message\<close> of the \<open>RangeError\<close> the host raises when its stack is full.\<close>

definition stackOverflow :: string where
  "stackOverflow = ''Maximum call stack size exceeded''"

text \<open>The \<open>catch\<close> block of \<open>compile\<close>: one more error, no \<open>js\<close> field.\<close>

definition caught ::
  "string \<Rightarrow> string list \<Rightarrow> string list \<Rightarrow> Node option \<Rightarrow> CompileResult" where
  "caught message errs ws ast =
     \<lparr>success = False, js = None,
      res_errors = errs @ [''Compilation error: '' @ message],
      res_warnings = ws, res_ast = ast\<rparr>"

text \<open>
  \<open>compile\<close>: reset, tokenize, parse, analyse, generate, inside \<open>try\<close>. \<open>parse\<close>
  catches what the parser throws. The two tree walkers throw when the stack overflows, and
  then the \<open>catch\<close> block returns. The result is \<open>None\<close> when the parser does not
  return on the given fuel; the parser is bounded by its fuel alone, the stack bounds the
  two walkers.
\<close>

definition compile ::
  "nat \<Rightarrow> nat \<Rightarrow> (string \<Rightarrow> string) \<Rightarrow> string \<Rightarrow> CompileResult option" where
  "compile fuel stack fmt src =
     (case tokenize src [] of
        (ts, errs) \<Rightarrow>
          (case parse fuel \<lparr>toks = ts, errors = errs, warnings = []\<rparr> of
             None \<Rightarrow> None
           | Some (ast, st) \<Rightarrow>
               (case analyzeCode stack ast (warnings st) of
                  Overflows ws \<Rightarrow> Some (caught stackOverflow (errors st) ws ast)
                | Returns ws \<Rightarrow>
                    (case generate stack fmt ast of
                       None \<Rightarrow> Some (caught stackOverflow (errors st) ws ast)
                     | Some text \<Rightarrow>
                         Some \<lparr>success = (errors st = []),
                               js = Some text,
                               res_errors = errors st,
                               res_warnings = ws,
                               res_ast = ast\<rparr>))))"

definition failureText :: "string list \<Rightarrow> string" where
  "failureText errs =
     ''// Compilation failed with errors:'' @ [CHR 0x0A] @ ''// ''
     @ join ([CHR 0x0A] @ ''// '') errs"

text \<open>One line of the epilogue: \<open>if (typeof name === 'function') call;\<close>\<close>

definition registration :: "string \<Rightarrow> string \<Rightarrow> string" where
  "registration name call =
     ''if (typeof '' @ name @ '' === '' @ [CHR 0x27] @ ''function'' @ [CHR 0x27] @ '') ''
     @ call @ '';''"

definition wrapCode :: "string \<Rightarrow> string" where
  "wrapCode compiledCode =
     [CHR 0x0A] @ ''// Compiled SAAAM code'' @ [CHR 0x0A]
     @ ''(function(SAAAM) {'' @ [CHR 0x0A]
     @ indent compiledCode @ [CHR 0x0A]
     @ [CHR 0x0A]
     @ ''// Register lifecycle functions with SAAAM engine'' @ [CHR 0x0A]
     @ registration ''create'' ''SAAAM.registerCreate(create)'' @ [CHR 0x0A]
     @ registration ''step'' ''SAAAM.registerStep(step)'' @ [CHR 0x0A]
     @ registration ''draw'' ''SAAAM.registerDraw(draw)'' @ [CHR 0x0A]
     @ registration ''on_collision'' ''SAAAM.registerCollision(on_collision)'' @ [CHR 0x0A]
     @ [CHR 0x0A]
     @ ''})(SAAAM || {});'' @ [CHR 0x0A]"

definition compileToJS ::
  "nat \<Rightarrow> nat \<Rightarrow> (string \<Rightarrow> string) \<Rightarrow> string \<Rightarrow> string option" where
  "compileToJS fuel stack fmt src =
     (case compile fuel stack fmt src of
        None \<Rightarrow> None
      | Some result \<Rightarrow>
          Some (if \<not> success result then failureText (res_errors result)
                else wrapCode (case js result of None \<Rightarrow> [] | Some c \<Rightarrow> c)))"

section \<open>Inputs and predicates of the properties\<close>

text \<open>The program of scenario S1: three lifecycle functions, one per line.\<close>

definition helloLifecycle :: string where
  "helloLifecycle = ''function create(){ }'' @ [CHR 0x0A] @ ''function step(dt){ }'' @ [CHR 0x0A]
     @ ''function draw(ctx){ }''"

text \<open>A top-level function named \<open>name\<close> is declared in the program \<open>ast\<close>.\<close>

definition declaresFunction :: "Node option \<Rightarrow> string \<Rightarrow> bool" where
  "declaresFunction ast name =
     (case ast of
        Some (Program body) \<Rightarrow>
          list_ex (\<lambda>s. case s of FunctionDefinition f _ _ \<Rightarrow> f = name | _ \<Rightarrow> False) body
      | _ \<Rightarrow> False)"

text \<open>The six messages \<open>compile\<close> records on the program of scenario S1.\<close>

definition helloErrors :: "string list" where
  "helloErrors =
     [''Expected token of type IDENTIFIER, but got SAAAM_KEYWORD'',
      ''Parse error: Expected token of type IDENTIFIER, but got SAAAM_KEYWORD'',
      ''Expected token of type IDENTIFIER, but got SAAAM_KEYWORD'',
      ''Parse error: Expected token of type IDENTIFIER, but got SAAAM_KEYWORD'',
      ''Expected token of type IDENTIFIER, but got SAAAM_KEYWORD'',
      ''Parse error: Expected token of type IDENTIFIER, but got SAAAM_KEYWORD'']"

text \<open>The result of \<open>compile\<close> on \<open>var a = 1;\<close>, and on the same text behind a
  code unit the lexer rejects, when the host prints the number \<open>1\<close> as \<open>1\<close>.\<close>

definition oneVariable :: "bool \<Rightarrow> string list \<Rightarrow> CompileResult" where
  "oneVariable ok errs =
     \<lparr>success = ok, js = Some ''var a = 1;'', res_errors = errs,
      res_warnings = [''Variable '' @ [CHR 0x27] @ ''a'' @ [CHR 0x27]
                        @ '' is declared but never used''],
      res_ast = Some (Program [VariableDeclaration ''var'' ''a''
                                 (Some (Literal (NumberValue ''1'')))])\<rparr>"

text \<open>The tokens of \<open>var x = {1};\<close>.\<close>

definition stuckTokens :: "Token list" where
  "stuckTokens =
     [\<lparr>tok_type = KEYWORD, tok_value = ''var'', tok_position = 0\<rparr>,
      \<lparr>tok_type = IDENTIFIER, tok_value = ''x'', tok_position = 4\<rparr>,
      \<lparr>tok_type = OPERATOR, tok_value = ''='', tok_position = 6\<rparr>,
      \<lparr>tok_type = BRACKET, tok_value = ''{'', tok_position = 8\<rparr>,
      \<lparr>tok_type = NUMBER, tok_value = ''1'', tok_position = 9\<rparr>,
      \<lparr>tok_type = BRACKET, tok_value = ''}'', tok_position = 10\<rparr>,
      \<lparr>tok_type = PUNCTUATION, tok_value = '';'', tok_position = 11\<rparr>,
      \<lparr>tok_type = EOF, tok_value = [], tok_position = 12\<rparr>]"

text \<open>No clause, or a clause without a test: the values of \<open>defaultCase\<close>.\<close>

definition isDefault :: "SwitchCase option \<Rightarrow> bool" where
  "isDefault d = (case d of None \<Rightarrow> True | Some c \<Rightarrow> caseTest c = None)"

text \<open>A token list with the \<open>default\<close> clause in front of a \<open>case\<close> clause.\<close>

definition defaultFirst :: "Token list" where
  "defaultFirst =
     [\<lparr>tok_type = KEYWORD, tok_value = ''switch'', tok_position = 0\<rparr>,
      \<lparr>tok_type = PUNCTUATION, tok_value = ''('', tok_position = 7\<rparr>,
      \<lparr>tok_type = IDENTIFIER, tok_value = ''x'', tok_position = 8\<rparr>,
      \<lparr>tok_type = PUNCTUATION, tok_value = '')'', tok_position = 9\<rparr>,
      \<lparr>tok_type = BRACKET, tok_value = ''{'', tok_position = 11\<rparr>,
      \<lparr>tok_type = KEYWORD, tok_value = ''default'', tok_position = 13\<rparr>,
      \<lparr>tok_type = PUNCTUATION, tok_value = '':'', tok_position = 20\<rparr>,
      \<lparr>tok_type = KEYWORD, tok_value = ''break'', tok_position = 22\<rparr>,
      \<lparr>tok_type = PUNCTUATION, tok_value = '';'', tok_position = 27\<rparr>,
      \<lparr>tok_type = KEYWORD, tok_value = ''case'', tok_position = 29\<rparr>,
      \<lparr>tok_type = NUMBER, tok_value = ''1'', tok_position = 34\<rparr>,
      \<lparr>tok_type = PUNCTUATION, tok_value = '':'', tok_position = 35\<rparr>,
      \<lparr>tok_type = PUNCTUATION, tok_value = '';'', tok_position = 37\<rparr>,
      \<lparr>tok_type = BRACKET, tok_value = ''}'', tok_position = 39\<rparr>,
      \<lparr>tok_type = EOF, tok_value = [], tok_position = 40\<rparr>]"

text \<open>The node the parser builds from it: the \<open>default\<close> clause is last.\<close>

definition defaultFirstNode :: Node where
  "defaultFirstNode =
     SwitchStatement (Identifier ''x'' (Some False))
       ([SwitchCase (Some (Literal (NumberValue ''1''))) [EmptyStatement]]
        @ [SwitchCase None [BreakStatement]])"

text \<open>
  \<open>lookahead K P\<close>: when \<open>P\<close> returns, it has consumed a prefix \<open>A\<close> of the
  tokens, and it returns the same value and the same messages when the tokens behind
  \<open>A\<close> are replaced by any non-empty list that starts with the same token or with a
  token of \<open>K\<close>.
\<close>

definition agree :: "(Token \<Rightarrow> bool) \<Rightarrow> Token list \<Rightarrow> Token list \<Rightarrow> bool" where
  "agree K R B = (case B of [] \<Rightarrow> False | b # _ \<Rightarrow> take 1 R = [b] \<or> K b)"

definition lookahead :: "(Token \<Rightarrow> bool) \<Rightarrow> 'a Parser \<Rightarrow> bool" where
  "lookahead K P =
     (\<forall>st v st'. P st = Ok v st' \<longrightarrow>
        (\<exists>A. toks st = A @ toks st'
           \<and> (\<forall>B. agree K (toks st') B \<longrightarrow> P (st\<lparr>toks := A @ B\<rparr>) = Ok v (st'\<lparr>toks := B\<rparr>))))"

text \<open>\<open>consumes P\<close>: when \<open>P\<close> returns, it has consumed at least one token.\<close>

definition consumes :: "'a Parser \<Rightarrow> bool" where
  "consumes P = (\<forall>st v st'. P st = Ok v st' \<longrightarrow> length (toks st') < length (toks st))"

definition noToken :: "Token \<Rightarrow> bool" where
  "noToken t = False"

definition isSemicolon :: "Token \<Rightarrow> bool" where
  "isSemicolon t = matches t PUNCTUATION '';''"

text \<open>
  The statements with an optional semicolon, as a body and a last step: the variable
  declaration and the \<open>return\<close> statement up to the test for the semicolon, and from it.
\<close>

definition declarationBody :: "nat \<Rightarrow> (Token \<times> Token \<times> Node option) Parser" where
  "declarationBody n st =
     andThen (consume None None st) (\<lambda>kind st.
     andThen (consume (Some IDENTIFIER) None st) (\<lambda>identifier st.
     andThen (withToken st (\<lambda>t.
                if matches t OPERATOR ''='' then
                  andThen (consume None None st) (\<lambda>_ st.
                  andThen (parseExpression n st) (\<lambda>e st. Ok (Some e) st))
                else Ok None st)) (\<lambda>init st. Ok (kind, identifier, init) st)))"

definition declarationEnd :: "Token \<times> Token \<times> Node option \<Rightarrow> Node Parser" where
  "declarationEnd v st =
     (case v of (kind, identifier, init) \<Rightarrow>
        andThen (optionalSemicolon
                   (''Missing semicolon after variable declaration for '' @ [CHR 0x27]
                      @ tok_value identifier @ [CHR 0x27]) st) (\<lambda>_ st.
          Ok (VariableDeclaration (tok_value kind) (tok_value identifier) init) st))"

definition returnBody :: "nat \<Rightarrow> Node option Parser" where
  "returnBody n st =
     andThen (consume (Some KEYWORD) (Some ''return'') st) (\<lambda>_ st.
       withToken st (\<lambda>t.
         if \<not> matches t PUNCTUATION '';'' \<and> \<not> matches t BRACKET ''}'' then
           andThen (parseExpression n st) (\<lambda>e st. Ok (Some e) st)
         else Ok None st))"

definition returnEnd :: "Node option \<Rightarrow> Node Parser" where
  "returnEnd argument st =
     withToken st (\<lambda>t.
       if matches t PUNCTUATION '';'' then
         andThen (consume None None st) (\<lambda>_ st. Ok (ReturnStatement argument) st)
       else if \<not> matches t BRACKET ''}'' then
         Ok (ReturnStatement argument)
           (addWarning ''Missing semicolon after return statement'' st)
       else Ok (ReturnStatement argument) st)"

text \<open>The five parsers that test for a semicolon after the statement.\<close>

definition semicolonStatements :: "nat \<Rightarrow> Node Parser list" where
  "semicolonStatements n =
     [parseVariableDeclaration n, parseExpressionStatement n, parseReturnStatement n,
      parseBreakStatement, parseContinueStatement]"

text \<open>The tokens of \<open>var a = 1\<close>, a semicolon, and the end of the text.\<close>

definition unterminated :: "Token list" where
  "unterminated =
     [\<lparr>tok_type = KEYWORD, tok_value = ''var'', tok_position = 0\<rparr>,
      \<lparr>tok_type = IDENTIFIER, tok_value = ''a'', tok_position = 4\<rparr>,
      \<lparr>tok_type = OPERATOR, tok_value = ''='', tok_position = 6\<rparr>,
      \<lparr>tok_type = NUMBER, tok_value = ''1'', tok_position = 8\<rparr>]"

definition semicolonToken :: Token where
  "semicolonToken = \<lparr>tok_type = PUNCTUATION, tok_value = '';'', tok_position = 9\<rparr>"

definition endToken :: Token where
  "endToken = \<lparr>tok_type = EOF, tok_value = [], tok_position = 10\<rparr>"

text \<open>
  The warning a statement records when no semicolon follows it, in front of the tokens
  \<open>rest\<close>: each of the five statements has its message, and \<open>return\<close> records
  none in front of \<open>}\<close>.
\<close>

definition missingSemicolon :: "Node \<Rightarrow> Token list \<Rightarrow> string list" where
  "missingSemicolon node rest =
     (case node of
        VariableDeclaration kind identifier init \<Rightarrow>
          [''Missing semicolon after variable declaration for '' @ [CHR 0x27] @ identifier
             @ [CHR 0x27]]
      | ExpressionStatement expression \<Rightarrow> [''Missing semicolon after expression'']
      | ReturnStatement argument \<Rightarrow>
          (case rest of [] \<Rightarrow> []
           | t # _ \<Rightarrow> if matches t BRACKET ''}'' then []
                      else [''Missing semicolon after return statement''])
      | BreakStatement \<Rightarrow> [''Missing semicolon after break statement'']
      | ContinueStatement \<Rightarrow> [''Missing semicolon after continue statement'']
      | _ \<Rightarrow> [])"

text \<open>The tokens of \<open>return 1\<close>, and a closing brace.\<close>

definition unterminatedReturn :: "Token list" where
  "unterminatedReturn =
     [\<lparr>tok_type = KEYWORD, tok_value = ''return'', tok_position = 0\<rparr>,
      \<lparr>tok_type = NUMBER, tok_value = ''1'', tok_position = 7\<rparr>]"

definition closingBrace :: Token where
  "closingBrace = \<lparr>tok_type = BRACKET, tok_value = ''}'', tok_position = 9\<rparr>"

text \<open>The text \<open>@"a"\<close>, and the text \<open>"a"\<close> behind its first code unit.\<close>

definition quotedAfterAt :: string where
  "quotedAfterAt = [CHR ''@'', CHR 0x22, CHR ''a'', CHR 0x22]"

definition quoted :: string where
  "quoted = [CHR 0x22, CHR ''a'', CHR 0x22]"

section \<open>Properties of the lexer\<close>

lemma firstMatch_kind: "firstMatch ks r = Some (k, v) \<Longrightarrow> k \<in> set ks"
  by (induction ks) (auto split: option.splits)

lemma tokenizeLoop_Nil: "tokenizeLoop [] pos ts es = (ts, es)"
  by (simp add: tokenizeLoop.simps)

lemma tokenizeLoop_skip:
  "firstMatch tokenTypes (c # r) = None \<Longrightarrow>
   tokenizeLoop (c # r) pos ts es = tokenizeLoop r (Suc pos) ts (es @ [unexpectedCharacter pos c])"
  by (subst tokenizeLoop.simps) simp

lemma tokenizeLoop_match:
  "firstMatch tokenTypes (c # r) = Some (k, v) \<Longrightarrow>
   tokenizeLoop (c # r) pos ts es =
     tokenizeLoop (drop (length v) (c # r)) (pos + length v)
       (if ignore k then ts else ts @ [\<lparr>tok_type = k, tok_value = v, tok_position = pos\<rparr>]) es"
  by (subst tokenizeLoop.simps) simp

text \<open>
  What one run of the loop adds: tokens at strictly increasing positions inside the text
  that was left, none of them EOF, and messages at the end of the error list.
\<close>

lemma tokenizeLoop_inv:
  "tokenizeLoop remaining pos ts es = (ts', es') \<Longrightarrow>
   \<exists>new more. ts' = ts @ new \<and> es' = es @ more
     \<and> sorted_wrt (<) (map tok_position new)
     \<and> list_all (\<lambda>t. pos \<le> tok_position t \<and> tok_position t < pos + length remaining
                     \<and> tok_type t \<noteq> EOF) new"
proof (induction remaining pos ts es arbitrary: ts' es' rule: tokenizeLoop.induct)
  case (1 remaining pos ts es)
  show ?case
  proof (cases remaining)
    case Nil
    with "1.prems" show ?thesis by (simp add: tokenizeLoop_Nil)
  next
    case (Cons errorChar rest)
    show ?thesis
    proof (cases "firstMatch tokenTypes remaining")
      case None
      from "1.prems" Cons None
      have run: "tokenizeLoop (drop 1 remaining) (pos + 1) ts
                   (es @ [unexpectedCharacter pos errorChar]) = (ts', es')"
        by (simp add: tokenizeLoop_skip)
      from "1.IH"(1) [OF Cons None run]
      obtain new more where "ts' = ts @ new"
        "es' = (es @ [unexpectedCharacter pos errorChar]) @ more"
        "sorted_wrt (<) (map tok_position new)"
        "list_all (\<lambda>t. pos + 1 \<le> tok_position t
                     \<and> tok_position t < pos + 1 + length (drop 1 remaining)
                     \<and> tok_type t \<noteq> EOF) new"
        by blast
      with Cons show ?thesis
        by (auto simp: list_all_iff)
    next
      case (Some kv)
      obtain k v where kv: "kv = (k, v)" by (cases kv)
      from Some kv have fm: "firstMatch tokenTypes remaining = Some (k, v)" by simp
      from firstMatch_bounds [OF fm] have len: "0 < length v" "length v \<le> length remaining"
        by simp_all
      from len obtain c' v' where v: "v = c' # v'" by (cases v) auto
      from firstMatch_kind [OF fm] have keof: "k \<noteq> EOF"
        by (auto simp: tokenTypes_def)
      define tk where "tk = \<lparr>tok_type = k, tok_value = v, tok_position = pos\<rparr>"
      define acc where "acc = (if ignore k then ts else ts @ [tk])"
      from "1.prems" Cons fm
      have run: "tokenizeLoop (drop (length v) remaining) (pos + length v) acc es
                   = (ts', es')"
        by (auto simp: tokenizeLoop_match acc_def tk_def split: if_splits)
      from "1.IH"(2) [OF Cons Some kv [symmetric] run [unfolded acc_def tk_def]]
      obtain new more where n: "ts' = acc @ new" "es' = es @ more"
        "sorted_wrt (<) (map tok_position new)"
        "list_all (\<lambda>t. pos + length v \<le> tok_position t
                     \<and> tok_position t < pos + length v + length (drop (length v) remaining)
                     \<and> tok_type t \<noteq> EOF) new"
        unfolding acc_def tk_def by blast
      show ?thesis
      proof (cases "ignore k")
        case True
        with n len v show ?thesis
          by (auto simp: acc_def list_all_iff)
      next
        case False
        have "ts' = ts @ (tk # new)" using n False by (simp add: acc_def)
        moreover have "sorted_wrt (<) (map tok_position (tk # new))"
          using n len v by (auto simp: tk_def list_all_iff)
        moreover have "list_all (\<lambda>t. pos \<le> tok_position t
                     \<and> tok_position t < pos + length remaining
                     \<and> tok_type t \<noteq> EOF) (tk # new)"
          using n len v keof by (auto simp: tk_def list_all_iff)
        ultimately show ?thesis using n(2) by blast
      qed
    qed
  qed
qed

text \<open>
  C8. For every source string, lexing terminates (\<open>tokenize\<close> is a total function: its
  loop is defined with a termination proof), the token sequence ends with the EOF token at
  position \<open>length src\<close>, that token is the only EOF token, and the positions of the
  tokens are strictly increasing and at most \<open>length src\<close>.
\<close>

theorem tokenize_positions:
  "(case tokenize src es of
      (ts, es') \<Rightarrow>
        ts \<noteq> []
        \<and> last ts = \<lparr>tok_type = EOF, tok_value = [], tok_position = length src\<rparr>
        \<and> length (filter (\<lambda>t. tok_type t = EOF) ts) = 1
        \<and> sorted_wrt (<) (map tok_position ts)
        \<and> list_all (\<lambda>t. tok_position t \<le> length src) ts)"
proof -
  obtain ts0 es0 where run: "tokenizeLoop src 0 [] es = (ts0, es0)"
    by (cases "tokenizeLoop src 0 [] es")
  from tokenizeLoop_inv [OF run]
  have sorted: "sorted_wrt (<) (map tok_position ts0)"
    and each: "list_all (\<lambda>t. tok_position t < length src \<and> tok_type t \<noteq> EOF) ts0"
    by (auto simp: list_all_iff)
  from each have none: "filter (\<lambda>t. tok_type t = EOF) ts0 = []"
    by (auto simp: list_all_iff filter_empty_conv)
  from sorted each
  have "sorted_wrt (<) (map tok_position
          (ts0 @ [\<lparr>tok_type = EOF, tok_value = [], tok_position = length src\<rparr>]))"
    by (auto simp: sorted_wrt_append list_all_iff)
  moreover from each
  have "list_all (\<lambda>t. tok_position t \<le> length src)
          (ts0 @ [\<lparr>tok_type = EOF, tok_value = [], tok_position = length src\<rparr>])"
    by (auto simp: list_all_iff less_imp_le)
  ultimately show ?thesis
    using run none by (simp add: tokenize_def)
qed

text \<open>
  When no expression of \<open>tokenTypes\<close> matches the text that is left, which is the
  test of the loop, it appends one message, which names the position and the first code
  unit of that text, drops that one code unit, and goes on with the rest at the next
  position with the token list as it was; every token the rest of the run adds lies behind
  the skipped code unit.
\<close>

lemma tokenizeLoop_unmatched:
  assumes "firstMatch tokenTypes (c # r) = None"
  shows "tokenizeLoop (c # r) pos ts es
           = tokenizeLoop r (pos + 1) ts (es @ [unexpectedCharacter pos c])
         \<and> (\<exists>new more.
               tokenizeLoop (c # r) pos ts es = (ts @ new, es @ unexpectedCharacter pos c # more)
               \<and> list_all (\<lambda>t. pos < tok_position t) new)"
proof -
  have step: "tokenizeLoop (c # r) pos ts es
                = tokenizeLoop r (pos + 1) ts (es @ [unexpectedCharacter pos c])"
    using assms by (simp add: tokenizeLoop_skip)
  obtain ts' es' where run:
    "tokenizeLoop r (pos + 1) ts (es @ [unexpectedCharacter pos c]) = (ts', es')"
    by (cases "tokenizeLoop r (pos + 1) ts (es @ [unexpectedCharacter pos c])")
  from tokenizeLoop_inv [OF run]
  obtain new more where "ts' = ts @ new" "es' = (es @ [unexpectedCharacter pos c]) @ more"
    "list_all (\<lambda>t. pos + 1 \<le> tok_position t) new"
    by (auto simp: list_all_iff)
  then have "tokenizeLoop (c # r) pos ts es = (ts @ new, es @ unexpectedCharacter pos c # more)
             \<and> list_all (\<lambda>t. pos < tok_position t) new"
    using step run by (auto simp: list_all_iff)
  with step show ?thesis by blast
qed

lemma tokenizeLoop_unmatched_example:
  "firstMatch tokenTypes ''@a'' = None
   \<and> tokenize ''@a'' []
       = ([\<lparr>tok_type = IDENTIFIER, tok_value = ''a'', tok_position = 1\<rparr>,
           \<lparr>tok_type = EOF, tok_value = [], tok_position = 2\<rparr>],
          [''Unexpected character at position 0: '' @ [CHR 0x27] @ ''@'' @ [CHR 0x27]])"
  by (intro conjI; code_simp)

text \<open>
  C6 fails on \<open>@"a"\<close>. No token starts with \<open>@\<close>, and no expression of
  \<open>tokenTypes\<close> matches at the first code unit: nine of the ten find nothing, and
  STRING, whose second alternative is not anchored, finds \<open>"a"\<close> one code unit
  later. The loop takes that for a match at the head. It records no error for \<open>@\<close>,
  emits the STRING token at position 0, and cuts three code units from the head, so that
  the closing quote is left over and is reported as the unexpected character.
\<close>

theorem unanchored_string_hides_character:
  "map (\<lambda>k. regexMatch k quotedAfterAt) tokenTypes
     = [None, None, None, None, Some quoted, None, None, None, None, None]
   \<and> \<not> startsWith quotedAfterAt quoted
   \<and> firstMatch tokenTypes quotedAfterAt = Some (STRING, quoted)
   \<and> tokenize quotedAfterAt []
       = ([\<lparr>tok_type = STRING, tok_value = quoted, tok_position = 0\<rparr>,
           \<lparr>tok_type = EOF, tok_value = [], tok_position = 4\<rparr>],
          [''Unexpected character at position 3: '' @ [CHR 0x27, CHR 0x22, CHR 0x27]])"
  unfolding quotedAfterAt_def quoted_def by (intro conjI; code_simp)

section \<open>The stack of the tree walkers\<close>

text \<open>
  A walk that returns on a stack of \<open>d\<close> calls returns the same on every deeper
  stack, and so does \<open>compile\<close> when it has returned the emitted text.
\<close>

lemma walkThen_mono:
  assumes "walkThen w f = Returns b"
    and "\<And>a. w = Returns a \<Longrightarrow> w' = Returns a"
    and "\<And>a. f a = Returns b \<Longrightarrow> f' a = Returns b"
  shows "walkThen w' f' = Returns b"
  using assms by (cases w) auto

lemma walkThen_Returns:
  "walkThen w f = Returns b \<longleftrightarrow> (\<exists>a. w = Returns a \<and> f a = Returns b)"
  by (cases w) auto

lemma walkList_mono:
  assumes "\<And>x a b. x \<in> set xs \<Longrightarrow> f x a = Returns b \<Longrightarrow> g x a = Returns b"
    and "walkList f xs a = Returns b"
  shows "walkList g xs a = Returns b"
  using assms by (induction xs arbitrary: a) (auto simp: walkThen_Returns)

lemma walkOption_mono:
  assumes "\<And>x a b. f x a = Returns b \<Longrightarrow> g x a = Returns b"
    and "walkOption f x a = Returns b"
  shows "walkOption g x a = Returns b"
  using assms by (cases x) (auto simp: walkOption_def)

lemma visit_Suc:
  "(visit d node a = Returns b \<longrightarrow> visit (Suc d) node a = Returns b)
   \<and> (visitCase d c a = Returns b \<longrightarrow> visitCase (Suc d) c a = Returns b)
   \<and> (visitProperty d p a = Returns b \<longrightarrow> visitProperty (Suc d) p a = Returns b)"
proof (induction d arbitrary: node c p a b)
  case 0
  show ?case by simp
next
  case (Suc d)
  have V: "visit d x a = Returns b \<Longrightarrow> visit (Suc d) x a = Returns b" for x a b
    using Suc by blast
  have C: "visitCase d x a = Returns b \<Longrightarrow> visitCase (Suc d) x a = Returns b" for x a b
    using Suc by blast
  have P: "visitProperty d x a = Returns b \<Longrightarrow> visitProperty (Suc d) x a = Returns b"
    for x a b
    using Suc by blast
  have L: "walkList (visit d) xs a = Returns b \<Longrightarrow> walkList (visit (Suc d)) xs a = Returns b"
    for xs a b by (rule walkList_mono [where f = "visit d"]) (auto intro: V)
  have O: "walkOption (visit d) x a = Returns b \<Longrightarrow> walkOption (visit (Suc d)) x a = Returns b"
    for x a b by (rule walkOption_mono [where f = "visit d"]) (auto intro: V)
  have LC: "walkList (visitCase d) xs a = Returns b
            \<Longrightarrow> walkList (visitCase (Suc d)) xs a = Returns b"
    for xs a b by (rule walkList_mono [where f = "visitCase d"]) (auto intro: C)
  have LP: "walkList (visitProperty d) xs a = Returns b
            \<Longrightarrow> walkList (visitProperty (Suc d)) xs a = Returns b"
    for xs a b by (rule walkList_mono [where f = "visitProperty d"]) (auto intro: P)
  have LO: "walkList (walkOption (visit d)) xs a = Returns b
            \<Longrightarrow> walkList (walkOption (visit (Suc d))) xs a = Returns b"
    for xs a b by (rule walkList_mono [where f = "walkOption (visit d)"]) (auto intro: O)
  have n: "visit (Suc d) node a = Returns b \<longrightarrow> visit (Suc (Suc d)) node a = Returns b"
  proof (cases node)
    case (MemberExpression object property computed)
    then show ?thesis
      by (cases property) (auto elim!: walkThen_mono V)
  qed (auto elim!: walkThen_mono V L O LC LP LO)
  have c: "visitCase (Suc d) c a = Returns b \<longrightarrow> visitCase (Suc (Suc d)) c a = Returns b"
    by (cases c) (auto elim!: walkThen_mono V L O)
  have p: "visitProperty (Suc d) p a = Returns b
           \<longrightarrow> visitProperty (Suc (Suc d)) p a = Returns b"
    by (cases p) (auto elim!: walkThen_mono V)
  from n c p show ?case by blast
qed

lemma visit_deeper: "visit d node a = Returns b \<Longrightarrow> visit (d + k) node a = Returns b"
  by (induction k) (auto simp: visit_Suc)

lemma analyzeCode_deeper:
  "analyzeCode d ast ws = Returns ws' \<Longrightarrow> analyzeCode (d + k) ast ws = Returns ws'"
  by (cases ast) (auto simp: analyzeCode_def visit_deeper split: Walk.splits prod.splits)

lemma generate_deeper:
  "generate d fmt ast = Some out \<Longrightarrow> generate (d + k) fmt ast = Some out"
  by (cases ast) (auto simp: generate_def split: if_splits)

lemma compile_deeper_stack:
  assumes "compile n d fmt src = Some r" and "js r \<noteq> None"
  shows "compile n (d + k) fmt src = Some r"
  using assms
  by (auto simp: compile_def caught_def analyzeCode_deeper generate_deeper
      split: prod.splits option.splits Walk.splits)

lemma compile_stack_above:
  assumes "map_option (\<lambda>r. js r = None) (compile n d fmt src) = Some False"
  shows "compile n (d + k) fmt src = compile n d fmt src"
proof -
  from assms obtain r where r: "compile n d fmt src = Some r" "js r \<noteq> None"
    by (cases "compile n d fmt src") auto
  from compile_deeper_stack [OF this] r(1) show ?thesis by simp
qed

lemma compileToJS_stack_above:
  assumes "map_option (\<lambda>r. js r = None) (compile n d fmt src) = Some False"
  shows "compileToJS n (d + k) fmt src = compileToJS n d fmt src"
  by (simp add: compileToJS_def compile_stack_above [OF assms])

section \<open>Properties of the facade on the scenario programs\<close>

lemma startsWith_append: "startsWith (p @ b) p"
  by (simp add: startsWith_def)

lemma strIncludes_append: "strIncludes (a @ p @ b) p"
proof (induction a)
  case Nil
  show ?case by (cases "p @ b") (use startsWith_append [of p b] in auto)
next
  case (Cons c a)
  then show ?case by simp
qed

lemma strIncludes_prepend: "strIncludes s p \<Longrightarrow> strIncludes (a @ s) p"
  by (induction a) auto

lemma strIncludes_start: "strIncludes (p @ b) p"
  using strIncludes_append [of "[]" p b] by simp

lemma strIncludes_iff: "strIncludes s p \<longleftrightarrow> (\<exists>a b. s = a @ p @ b)"
proof
  show "strIncludes s p \<Longrightarrow> \<exists>a b. s = a @ p @ b"
  proof (induction s)
    case Nil
    then show ?case by simp
  next
    case (Cons c s)
    show ?case
    proof (cases "startsWith (c # s) p")
      case True
      then have "c # s = [] @ p @ drop (length p) (c # s)"
        unfolding startsWith_def by (metis append_Nil append_take_drop_id)
      then show ?thesis by blast
    next
      case False
      with Cons obtain a b where "s = a @ p @ b" by auto
      then have "c # s = (c # a) @ p @ b" by simp
      then show ?thesis by blast
    qed
  qed
next
  show "\<exists>a b. s = a @ p @ b \<Longrightarrow> strIncludes s p"
    using strIncludes_append by blast
qed

lemma strIncludes_trans: "strIncludes s q \<Longrightarrow> strIncludes q p \<Longrightarrow> strIncludes s p"
proof -
  assume "strIncludes s q" and "strIncludes q p"
  then obtain a b c d where "s = a @ q @ b" and "q = c @ p @ d"
    unfolding strIncludes_iff by blast
  then have "s = (a @ c) @ p @ (d @ b)" by simp
  then show ?thesis unfolding strIncludes_iff by blast
qed

lemma strIncludes_subset: "strIncludes s p \<Longrightarrow> set p \<subseteq> set s"
proof (induction s)
  case Nil
  then show ?case by simp
next
  case (Cons c s)
  show ?case
  proof (cases "startsWith (c # s) p")
    case True
    then have "p = take (length p) (c # s)" by (simp add: startsWith_def)
    then have "set p \<subseteq> set (c # s)" by (metis set_take_subset)
    then show ?thesis .
  next
    case False
    with Cons show ?thesis by auto
  qed
qed

text \<open>
  C1. On the program of scenario S1 the lexer classes \<open>create\<close>, \<open>step\<close> and
  \<open>draw\<close> as SAAAM_KEYWORD, \<open>parseFunctionDefinition\<close> asks for an IDENTIFIER
  after \<open>function\<close>, and each of the three declarations is rejected: \<open>compile\<close>
  returns \<open>success = false\<close> with six errors and an empty program, and
  \<open>compileToJS\<close> returns the failure comment, which holds no registration call;
  so on every stack of at least 50 calls.
\<close>

theorem hello_lifecycle_rejected:
  "map tok_type (fst (tokenize ''function create(){ }'' []))
     = [KEYWORD, SAAAM_KEYWORD, PUNCTUATION, PUNCTUATION, BRACKET, BRACKET, EOF]
   \<and> compile 50 (50 + stack) fmt helloLifecycle =
       Some \<lparr>success = False, js = Some [],
         res_errors = helloErrors, res_warnings = [], res_ast = Some (Program [])\<rparr>
   \<and> compileToJS 50 (50 + stack) fmt helloLifecycle = Some (failureText helloErrors)
   \<and> \<not> strIncludes (failureText helloErrors) ''registerCreate(create)''
   \<and> \<not> strIncludes (failureText helloErrors) ''registerStep(step)''
   \<and> \<not> strIncludes (failureText helloErrors) ''registerDraw(draw)''"
proof -
  have t: "map tok_type (fst (tokenize ''function create(){ }'' []))
     = [KEYWORD, SAAAM_KEYWORD, PUNCTUATION, PUNCTUATION, BRACKET, BRACKET, EOF]"
    by code_simp
  have c0: "compile 50 50 fmt helloLifecycle =
       Some \<lparr>success = False, js = Some [],
         res_errors = helloErrors, res_warnings = [], res_ast = Some (Program [])\<rparr>"
    unfolding helloLifecycle_def helloErrors_def by code_simp
  have c: "compile 50 (50 + stack) fmt helloLifecycle =
       Some \<lparr>success = False, js = Some [],
         res_errors = helloErrors, res_warnings = [], res_ast = Some (Program [])\<rparr>"
    by (rule compile_deeper_stack [OF c0]) simp
  have j: "compileToJS 50 (50 + stack) fmt helloLifecycle = Some (failureText helloErrors)"
    unfolding compileToJS_def c by simp
  have p: "CHR ''('' \<notin> set (failureText helloErrors)"
    unfolding helloErrors_def by code_simp
  have n: "\<not> strIncludes (failureText helloErrors) q" if "CHR ''('' \<in> set q" for q
    using strIncludes_subset [of "failureText helloErrors" q] p that by blast
  from t c j n [of "''registerCreate(create)''"] n [of "''registerStep(step)''"]
    n [of "''registerDraw(draw)''"]
  show ?thesis by simp
qed

text \<open>
  C3. The OPERATOR expression tries its one-character alternative first, so \<open>&&\<close> at
  the head of the remaining text is lexed as two \<open>&\<close> tokens and \<open>||\<close> as two
  \<open>|\<close> tokens. After white space the unanchored alternative finds \<open>&&\<close> one
  code unit later, emits it, and cuts two code units from the head, which leaves a stray
  \<open>&\<close>. In neither case does the parser build a binary expression from the two
  operands: the compilation fails, on every stack of at least 50 calls.
\<close>

theorem logical_operators_not_parsed:
  "map tok_value (fst (tokenize ''a&&b'' [])) = [''a'', ''&'', ''&'', ''b'', []]
   \<and> map tok_value (fst (tokenize ''a||b'' [])) = [''a'', ''|'', ''|'', ''b'', []]
   \<and> map tok_value (fst (tokenize ''a && b'' [])) = [''a'', ''&&'', ''&'', ''b'', []]
   \<and> map_option (\<lambda>r. (success r, res_errors r, res_ast r))
         (compile 50 (50 + stack) fmt ''a&&b'')
       = Some (False, [''Unexpected token: &'', ''Parse error: Unexpected token: &''],
               Some (Program [ExpressionStatement (Identifier ''a'' (Some False))]))
   \<and> map_option (\<lambda>r. (success r, res_errors r, res_ast r))
         (compile 50 (50 + stack) fmt ''a && b'')
       = Some (False, [''Unexpected token: &'', ''Parse error: Unexpected token: &''],
               Some (Program []))
   \<and> map_option (\<lambda>r. (success r, res_errors r, res_ast r))
         (compile 50 (50 + stack) fmt ''a || b'')
       = Some (False, [''Unexpected token: |'', ''Parse error: Unexpected token: |''],
               Some (Program []))"
proof -
  have a: "compile 50 (50 + stack) fmt ''a&&b'' = compile 50 50 fmt ''a&&b''"
    by (rule compile_stack_above) code_simp
  have b: "compile 50 (50 + stack) fmt ''a && b'' = compile 50 50 fmt ''a && b''"
    by (rule compile_stack_above) code_simp
  have c: "compile 50 (50 + stack) fmt ''a || b'' = compile 50 50 fmt ''a || b''"
    by (rule compile_stack_above) code_simp
  show ?thesis unfolding a b c by code_simp
qed



section \<open>Properties of the epilogue and of the success flag\<close>

lemma compile_oneVariable:
  "compile 50 50 id ''var a = 1;'' = Some (oneVariable True [])"
  unfolding oneVariable_def by code_simp

lemma compile_oneVariable_error:
  "compile 50 50 id ''@var a = 1;'' = Some (oneVariable False [unexpectedCharacter 0 (CHR ''@'')])"
  unfolding oneVariable_def by code_simp

lemma wrapCode_registrations:
  "strIncludes (wrapCode c) (registration ''create'' ''SAAAM.registerCreate(create)'')"
  "strIncludes (wrapCode c) (registration ''step'' ''SAAAM.registerStep(step)'')"
  "strIncludes (wrapCode c) (registration ''draw'' ''SAAAM.registerDraw(draw)'')"
  "strIncludes (wrapCode c)
     (registration ''on_collision'' ''SAAAM.registerCollision(on_collision)'')"
  unfolding wrapCode_def
  by ((rule strIncludes_start | rule strIncludes_prepend)+)

lemma registration_call: "strIncludes (registration name call) call"
  unfolding registration_def
  by ((rule strIncludes_start | rule strIncludes_prepend)+)

lemma wrapCode_calls:
  "strIncludes (wrapCode c) ''SAAAM.registerCreate(create)''"
  "strIncludes (wrapCode c) ''SAAAM.registerStep(step)''"
  "strIncludes (wrapCode c) ''SAAAM.registerDraw(draw)''"
  "strIncludes (wrapCode c) ''SAAAM.registerCollision(on_collision)''"
  by (rule strIncludes_trans [OF _ registration_call], rule wrapCode_registrations)+

text \<open>
  C2, as the specification states it, fails: the program \<open>var a = 1;\<close> declares no
  function, yet the text \<open>compileToJS\<close> returns for it contains
  \<open>SAAAM.registerCreate(create)\<close>.
\<close>

theorem registration_without_declaration:
  "compile 50 50 id ''var a = 1;'' = Some (oneVariable True [])
   \<and> \<not> declaresFunction (res_ast (oneVariable True [])) ''create''
   \<and> compileToJS 50 50 id ''var a = 1;'' = Some (wrapCode ''var a = 1;'')
   \<and> strIncludes (wrapCode ''var a = 1;'') ''SAAAM.registerCreate(create)''"
proof -
  have d: "\<not> declaresFunction (res_ast (oneVariable True [])) ''create''"
    by (simp add: oneVariable_def declaresFunction_def)
  have j: "compileToJS 50 50 id ''var a = 1;'' = Some (wrapCode ''var a = 1;'')"
    unfolding compileToJS_def compile_oneVariable by (simp add: oneVariable_def)
  show ?thesis
    by (intro conjI) (rule compile_oneVariable, rule d, rule j, rule wrapCode_calls(1))
qed

text \<open>
  C2, amended. Whenever \<open>compile\<close> succeeds, the text \<open>compileToJS\<close> returns is
  the wrapper around the emitted code, and it contains all four registration calls, each in
  its \<open>if (typeof name === 'function')\<close> statement, whatever the program declares.
\<close>

theorem registration_calls_unconditional:
  assumes "compile n stack fmt src = Some r" and "success r"
  shows "\<exists>c. compileToJS n stack fmt src = Some (wrapCode c)
           \<and> strIncludes (wrapCode c) (registration ''create'' ''SAAAM.registerCreate(create)'')
           \<and> strIncludes (wrapCode c) (registration ''step'' ''SAAAM.registerStep(step)'')
           \<and> strIncludes (wrapCode c) (registration ''draw'' ''SAAAM.registerDraw(draw)'')
           \<and> strIncludes (wrapCode c)
                (registration ''on_collision'' ''SAAAM.registerCollision(on_collision)'')
           \<and> strIncludes (wrapCode c) ''SAAAM.registerCreate(create)''
           \<and> strIncludes (wrapCode c) ''SAAAM.registerStep(step)''
           \<and> strIncludes (wrapCode c) ''SAAAM.registerDraw(draw)''
           \<and> strIncludes (wrapCode c) ''SAAAM.registerCollision(on_collision)''"
proof -
  define c where "c = (case js r of None \<Rightarrow> [] | Some x \<Rightarrow> x)"
  have "compileToJS n stack fmt src = Some (wrapCode c)"
    using assms by (simp add: compileToJS_def c_def)
  then show ?thesis
    using wrapCode_registrations [of c] wrapCode_calls [of c] by blast
qed

theorem registration_calls_unconditional_witness:
  "compile 50 50 id ''var a = 1;'' = Some (oneVariable True [])
   \<and> success (oneVariable True [])
   \<and> (\<exists>c. compileToJS 50 50 id ''var a = 1;'' = Some (wrapCode c)
           \<and> strIncludes (wrapCode c) (registration ''create'' ''SAAAM.registerCreate(create)'')
           \<and> strIncludes (wrapCode c) (registration ''step'' ''SAAAM.registerStep(step)'')
           \<and> strIncludes (wrapCode c) (registration ''draw'' ''SAAAM.registerDraw(draw)'')
           \<and> strIncludes (wrapCode c)
                (registration ''on_collision'' ''SAAAM.registerCollision(on_collision)'')
           \<and> strIncludes (wrapCode c) ''SAAAM.registerCreate(create)''
           \<and> strIncludes (wrapCode c) ''SAAAM.registerStep(step)''
           \<and> strIncludes (wrapCode c) ''SAAAM.registerDraw(draw)''
           \<and> strIncludes (wrapCode c) ''SAAAM.registerCollision(on_collision)'')"
proof -
  have s: "success (oneVariable True [])" by (simp add: oneVariable_def)
  show ?thesis
    by (intro conjI) (rule compile_oneVariable, rule s,
        rule registration_calls_unconditional [OF compile_oneVariable s])
qed

text \<open>Every message of the list is in the failure text, behind \<open>// \<close>.\<close>

lemma join_holds_each:
  "e \<in> set es \<Longrightarrow> \<exists>a b. pre @ join (sep @ pre) es = a @ (pre @ e) @ b"
proof (induction "sep @ pre" es rule: join.induct)
  case 1
  then show ?case by simp
next
  case (2 x)
  then have "pre @ join (sep @ pre) [x] = [] @ (pre @ e) @ []" by simp
  then show ?case by blast
next
  case (3 x y ys)
  show ?case
  proof (cases "e = x")
    case True
    have "pre @ join (sep @ pre) (x # y # ys)
            = [] @ (pre @ e) @ (sep @ pre @ join (sep @ pre) (y # ys))"
      using True by simp
    then show ?thesis by blast
  next
    case False
    with "3.prems" have "e \<in> set (y # ys)" by simp
    from "3.hyps" [OF this] obtain a b
      where "pre @ join (sep @ pre) (y # ys) = a @ (pre @ e) @ b" by blast
    then have "pre @ join (sep @ pre) (x # y # ys) = (pre @ x @ sep @ a) @ (pre @ e) @ b"
      by simp
    then show ?thesis by blast
  qed
qed

lemma failureText_holds_each:
  assumes "e \<in> set es"
  shows "strIncludes (failureText es) (''// '' @ e)"
proof -
  from join_holds_each [OF assms, of "''// ''" "[CHR 0x0A]"] obtain a b
    where "''// '' @ join ([CHR 0x0A] @ ''// '') es = a @ (''// '' @ e) @ b" by blast
  then have "failureText es
               = (''// Compilation failed with errors:'' @ [CHR 0x0A] @ a) @ (''// '' @ e) @ b"
    unfolding failureText_def by simp
  then show ?thesis using strIncludes_append by metis
qed

text \<open>
  C4, as the specification states it, fails: on \<open>@var a = 1;\<close> the lexer records an
  error, the emitter runs all the same, and \<open>compile\<close> returns \<open>success = false\<close>
  together with the executable text \<open>var a = 1;\<close>.
\<close>

theorem emitter_runs_despite_error:
  "compile 50 50 id ''@var a = 1;'' = Some (oneVariable False [unexpectedCharacter 0 (CHR ''@'')])
   \<and> success (oneVariable False [unexpectedCharacter 0 (CHR ''@'')]) = False
   \<and> js (oneVariable False [unexpectedCharacter 0 (CHR ''@'')]) = Some ''var a = 1;''"
  using compile_oneVariable_error by (simp add: oneVariable_def)

text \<open>
  C4, amended. \<open>compile\<close> has no gate between its stages, and what it returns has one
  of two shapes. When neither tree walker overflows the stack, \<open>js\<close> is the text the
  emitter wrote from the syntax tree (a one-line comment when the tree is null), whatever
  errors were recorded, and \<open>success\<close> holds exactly when the error list is empty. When
  a walker overflows, the \<open>catch\<close> block returns: \<open>success\<close> is false, there is no
  \<open>js\<close>, and the last error is the \<open>Compilation error\<close> message.
  \<open>compileToJS\<close> returns the wrapped emitted text when \<open>success\<close> holds, and
  otherwise the failure comment, which holds every error message behind \<open>// \<close>.
\<close>

theorem compile_result_shape:
  assumes "compile n stack fmt src = Some r"
  shows "((\<exists>text. js r = Some text \<and> generate stack fmt (res_ast r) = Some text
            \<and> (\<exists>ws ws'. analyzeCode stack (res_ast r) ws = Returns ws')
            \<and> success r = (res_errors r = []))
          \<or> (js r = None \<and> success r = False
              \<and> (\<exists>es. res_errors r = es @ [''Compilation error: '' @ stackOverflow])
              \<and> ((\<exists>ws ws'. analyzeCode stack (res_ast r) ws = Overflows ws')
                  \<or> generate stack fmt (res_ast r) = None)))
         \<and> compileToJS n stack fmt src
             = Some (if success r then wrapCode (case js r of None \<Rightarrow> [] | Some c \<Rightarrow> c)
                     else failureText (res_errors r))
         \<and> list_all (\<lambda>e. strIncludes (failureText (res_errors r)) (''// '' @ e)) (res_errors r)"
proof -
  obtain ts errs where tk: "tokenize src [] = (ts, errs)"
    by (cases "tokenize src []")
  with assms obtain ast st where
    p: "parse n \<lparr>toks = ts, errors = errs, warnings = []\<rparr> = Some (ast, st)"
    by (cases "parse n \<lparr>toks = ts, errors = errs, warnings = []\<rparr>")
       (auto simp: compile_def)
  from assms tk p have
    r: "r = (case analyzeCode stack ast (warnings st) of
               Overflows ws \<Rightarrow> caught stackOverflow (errors st) ws ast
             | Returns ws \<Rightarrow>
                 (case generate stack fmt ast of
                    None \<Rightarrow> caught stackOverflow (errors st) ws ast
                  | Some text \<Rightarrow>
                      \<lparr>success = (errors st = []), js = Some text, res_errors = errors st,
                       res_warnings = ws, res_ast = ast\<rparr>))"
    by (auto simp: compile_def split: option.splits Walk.splits)
  have a: "(\<exists>text. js r = Some text \<and> generate stack fmt (res_ast r) = Some text
            \<and> (\<exists>ws ws'. analyzeCode stack (res_ast r) ws = Returns ws')
            \<and> success r = (res_errors r = []))
          \<or> (js r = None \<and> success r = False
              \<and> (\<exists>es. res_errors r = es @ [''Compilation error: '' @ stackOverflow])
              \<and> ((\<exists>ws ws'. analyzeCode stack (res_ast r) ws = Overflows ws')
                  \<or> generate stack fmt (res_ast r) = None))"
  proof (cases "analyzeCode stack ast (warnings st)")
    case (Overflows ws)
    with r have "r = caught stackOverflow (errors st) ws ast" by simp
    then have "js r = None" "success r = False"
      "res_errors r = errors st @ [''Compilation error: '' @ stackOverflow]"
      "analyzeCode stack (res_ast r) (warnings st) = Overflows ws"
      using Overflows by (simp_all add: caught_def)
    then show ?thesis by blast
  next
    case (Returns ws)
    show ?thesis
    proof (cases "generate stack fmt ast")
      case None
      with r Returns have "r = caught stackOverflow (errors st) ws ast" by simp
      then have "js r = None" "success r = False"
        "res_errors r = errors st @ [''Compilation error: '' @ stackOverflow]"
        "generate stack fmt (res_ast r) = None"
        using None by (simp_all add: caught_def)
      then show ?thesis by blast
    next
      case (Some out)
      with r Returns
      have "r = \<lparr>success = (errors st = []), js = Some out, res_errors = errors st,
                 res_warnings = ws, res_ast = ast\<rparr>" by simp
      then have "js r = Some out" "generate stack fmt (res_ast r) = Some out"
        "analyzeCode stack (res_ast r) (warnings st) = Returns ws"
        "success r = (res_errors r = [])"
        using Some Returns by simp_all
      then show ?thesis by blast
    qed
  qed
  have c: "compileToJS n stack fmt src
             = Some (if success r then wrapCode (case js r of None \<Rightarrow> [] | Some c \<Rightarrow> c)
                     else failureText (res_errors r))"
    using assms by (simp add: compileToJS_def)
  have d: "list_all (\<lambda>e. strIncludes (failureText (res_errors r)) (''// '' @ e)) (res_errors r)"
    unfolding list_all_iff using failureText_holds_each by blast
  from a c d show ?thesis by (intro conjI)
qed

lemma compile_overflow:
  "compile 50 3 id ''x=1+1+1+1;''
     = Some \<lparr>success = False, js = None,
             res_errors = [''Compilation error: Maximum call stack size exceeded''],
             res_warnings = [],
             res_ast = Some (Program [ExpressionStatement
               (AssignmentExpression ''='' (Identifier ''x'' (Some False))
                 (BinaryExpression ''+''
                   (BinaryExpression ''+''
                     (BinaryExpression ''+'' (Literal (NumberValue ''1''))
                       (Literal (NumberValue ''1'')))
                     (Literal (NumberValue ''1'')))
                   (Literal (NumberValue ''1''))))])\<rparr>"
  by code_simp

theorem compile_result_shape_witness:
  "compile 50 50 id ''@var a = 1;'' = Some (oneVariable False [unexpectedCharacter 0 (CHR ''@'')])
   \<and> compileToJS 50 50 id ''@var a = 1;''
       = Some (failureText [unexpectedCharacter 0 (CHR ''@'')])
   \<and> strIncludes (failureText [unexpectedCharacter 0 (CHR ''@'')])
         (''// '' @ unexpectedCharacter 0 (CHR ''@''))
   \<and> map_option (\<lambda>r. (success r, js r, res_errors r)) (compile 50 3 id ''x=1+1+1+1;'')
       = Some (False, None, [''Compilation error: Maximum call stack size exceeded''])
   \<and> compileToJS 50 3 id ''x=1+1+1+1;''
       = Some (failureText [''Compilation error: Maximum call stack size exceeded''])"
proof -
  define r where "r = oneVariable False [unexpectedCharacter 0 (CHR ''@'')]"
  have run: "compile 50 50 id ''@var a = 1;'' = Some r"
    unfolding r_def by (rule compile_oneVariable_error)
  have f: "success r = False" "res_errors r = [unexpectedCharacter 0 (CHR ''@'')]"
    by (simp_all add: r_def oneVariable_def)
  from compile_result_shape [OF run]
  have "compileToJS 50 50 id ''@var a = 1;''
          = Some (if success r then wrapCode (case js r of None \<Rightarrow> [] | Some c \<Rightarrow> c)
                  else failureText (res_errors r))"
    and "list_all (\<lambda>e. strIncludes (failureText (res_errors r)) (''// '' @ e)) (res_errors r)"
    by blast+
  then have one: "compileToJS 50 50 id ''@var a = 1;''
               = Some (failureText [unexpectedCharacter 0 (CHR ''@'')])"
    and two: "strIncludes (failureText [unexpectedCharacter 0 (CHR ''@'')])
           (''// '' @ unexpectedCharacter 0 (CHR ''@''))"
    unfolding f by simp_all
  from compile_result_shape [OF compile_overflow]
  have three: "compileToJS 50 3 id ''x=1+1+1+1;''
       = Some (failureText [''Compilation error: Maximum call stack size exceeded''])"
    by simp
  have four: "map_option (\<lambda>r. (success r, js r, res_errors r)) (compile 50 3 id ''x=1+1+1+1;'')
       = Some (False, None, [''Compilation error: Maximum call stack size exceeded''])"
    unfolding compile_overflow by simp
  from run one two four three show ?thesis unfolding r_def by (intro conjI)
qed


section \<open>An input on which the parser does not return\<close>

text \<open>
  In the loop of \<open>parseObjectLiteral\<close>, a token that starts no property name records
  an error and continues the loop without consuming anything. On a number token the loop
  therefore never ends: whatever the fuel, it is used up.
\<close>

lemma parseProperties_stuck:
  "toks st = t # rest \<Longrightarrow> tok_type t = NUMBER \<Longrightarrow> parseProperties E n props st = Diverges"
proof (induction n arbitrary: st)
  case 0
  show ?case by simp
next
  case (Suc n)
  let ?st = "addError ''Expected property name in object literal'' st"
  have same: "toks ?st = t # rest" using Suc.prems by (simp add: addError_def)
  from Suc.IH [OF same Suc.prems(2)] Suc.prems same show ?case
    by (simp add: withToken_def matches_def matchesType_def parsePropertyKey_def skipComma_def)
qed

lemma parseObjectLiteral_stuck:
  assumes "toks st = \<lparr>tok_type = BRACKET, tok_value = ''{'', tok_position = p\<rparr> # t # rest"
    and "tok_type t = NUMBER"
  shows "parseObjectLiteral E n st = Diverges"
proof -
  have "toks (st\<lparr>toks := t # rest\<rparr>) = t # rest" by simp
  from parseProperties_stuck [OF this assms(2)] assms(1) show ?thesis
    by (simp add: parseObjectLiteral_def consume_def)
qed

lemma parsePrimary_stuck:
  assumes "toks st = \<lparr>tok_type = BRACKET, tok_value = ''{'', tok_position = p\<rparr> # t # rest"
    and "tok_type t = NUMBER"
  shows "parsePrimary E n st = Diverges"
  using assms parseObjectLiteral_stuck [OF assms]
  by (simp add: parsePrimary_def withToken_def matches_def matchesType_def)

lemma parseUnary_stuck:
  assumes "toks st = \<lparr>tok_type = BRACKET, tok_value = ''{'', tok_position = p\<rparr> # t # rest"
    and "tok_type t = NUMBER"
  shows "parseUnary E n st = Diverges"
  using assms parsePrimary_stuck [OF assms]
  by (cases n) (simp_all add: withToken_def matches_def parseCallOrMember_def)

lemma binaryLevel_stuck: "operand st = Diverges \<Longrightarrow> binaryLevel ops operand n st = Diverges"
  by (simp add: binaryLevel_def)

lemma parseLogicalOr_stuck:
  assumes "toks st = \<lparr>tok_type = BRACKET, tok_value = ''{'', tok_position = p\<rparr> # t # rest"
    and "tok_type t = NUMBER"
  shows "parseLogicalOr E n st = Diverges"
  unfolding parseLogicalOr_def parseLogicalAnd_def parseEquality_def parseComparison_def
    parseAdditive_def parseMultiplicative_def
  by (intro binaryLevel_stuck parseUnary_stuck [OF assms])

lemma parseExpression_stuck:
  assumes "toks st = \<lparr>tok_type = BRACKET, tok_value = ''{'', tok_position = p\<rparr> # t # rest"
    and "tok_type t = NUMBER"
  shows "parseExpression n st = Diverges"
proof (cases n)
  case 0
  then show ?thesis by simp
next
  case (Suc m)
  have "parseAssignment E m st = Diverges" for E
    using parseLogicalOr_stuck [OF assms] by (cases m) simp_all
  with Suc show ?thesis by simp
qed

lemma tokenize_stuck: "tokenize ''var x = {1};'' [] = (stuckTokens, [])"
  unfolding stuckTokens_def by code_simp

lemma programLoop_stuck:
  "programLoop n [] \<lparr>toks = stuckTokens, errors = [], warnings = []\<rparr> = Diverges"
proof (cases n)
  case 0
  then show ?thesis by simp
next
  case (Suc m)
  have e: "parseExpression m \<lparr>toks = drop 3 stuckTokens, errors = [], warnings = []\<rparr> = Diverges"
    by (rule parseExpression_stuck
          [where p = 8 and rest = "drop 5 stuckTokens"
             and t = "\<lparr>tok_type = NUMBER, tok_value = ''1'', tok_position = 9\<rparr>"])
       (simp_all add: stuckTokens_def)
  have "parseVariableDeclaration m \<lparr>toks = stuckTokens, errors = [], warnings = []\<rparr> = Diverges"
    using e by (simp add: parseVariableDeclaration_def consume_def withToken_def matches_def
        stuckTokens_def)
  then have "programItem m \<lparr>toks = stuckTokens, errors = [], warnings = []\<rparr> = Diverges"
    by (simp add: programItem_def withToken_def isDeclarationKeyword_def matches_def
        stuckTokens_def)
  with Suc show ?thesis
    by (simp add: withToken_def matchesType_def stuckTokens_def)
qed

text \<open>
  C9 fails on \<open>var x = {1};\<close>: for every fuel and every stack \<open>compile\<close>
  yields no result. The loop appends the same error without end; on a host it stops only
  when the error list can grow no more, and then with an exception that every
  \<open>catch\<close> block on the way raises again when it calls \<open>addError\<close>, so that the
  exception leaves \<open>compile\<close>.
\<close>

theorem compile_does_not_return: "compile n stack fmt ''var x = {1};'' = None"
  by (simp add: compile_def tokenize_stuck parse_def parseProgram_def programLoop_stuck)

section \<open>The switch statement\<close>

lemma andThen_eq_Ok: "andThen r f = Ok v s' \<longleftrightarrow> (\<exists>w s. r = Ok w s \<and> f w s = Ok v s')"
  by (cases r) auto

lemma andThen_OkE:
  assumes "andThen r f = Ok v s'"
  obtains w s where "r = Ok w s" and "f w s = Ok v s'"
  using assms by (cases r) auto

lemma withToken_eq_Ok:
  "withToken st f = Ok v s' \<longleftrightarrow> (\<exists>t rest. toks st = t # rest \<and> f t = Ok v s')"
  by (cases "toks st") (auto simp: withToken_def)

text \<open>
  The loop of \<open>parseSwitchStatement\<close> keeps the \<open>case\<close> clauses, which have a
  test, in \<open>cases\<close> and the \<open>default\<close> clause, which has none, in
  \<open>defaultCase\<close>.
\<close>

lemma switchLoop_inv:
  "switchLoop S n cs d st = Ok (cs', d') st' \<Longrightarrow>
   list_all (\<lambda>c. caseTest c \<noteq> None) cs \<Longrightarrow> isDefault d \<Longrightarrow>
   list_all (\<lambda>c. caseTest c \<noteq> None) cs' \<and> isDefault d'"
proof (induction n arbitrary: cs d st)
  case 0
  then show ?case by simp
next
  case (Suc n)
  from Suc.prems(1) obtain t rest where t: "toks st = t # rest"
    by (auto simp: withToken_eq_Ok)
  show ?case
  proof (cases "\<not> matches t BRACKET ''}'' \<and> \<not> matchesType t EOF")
    case False
    with Suc.prems t show ?thesis by (auto simp: withToken_def)
  next
    case True
    note body = True
    show ?thesis
    proof (cases "matches t KEYWORD ''case''")
      case True
      with Suc.prems(1) t body obtain test consequent s
        where "switchLoop S n (cs @ [SwitchCase (Some test) consequent]) d s = Ok (cs', d') st'"
        by (auto simp: withToken_def andThen_eq_Ok)
      from Suc.IH [OF this] Suc.prems(2,3) show ?thesis by simp
    next
      case False
      note notCase = False
      show ?thesis
      proof (cases "matches t KEYWORD ''default''")
        case True
        with Suc.prems(1) t body notCase obtain consequent s
          where "switchLoop S n cs (Some (SwitchCase None consequent)) s = Ok (cs', d') st'"
          by (auto simp: withToken_def andThen_eq_Ok)
        from Suc.IH [OF this] Suc.prems(2) show ?thesis by (simp add: isDefault_def)
      next
        case False
        with Suc.prems(1) t body notCase obtain s
          where "switchLoop S n cs d s = Ok (cs', d') st'"
          by (auto simp: withToken_def andThen_eq_Ok)
        from Suc.IH [OF this] Suc.prems(2,3) show ?thesis by simp
      qed
    qed
  qed
qed

lemma parseSwitchStatement_shape:
  assumes "parseSwitchStatement S n st = Ok node st'"
  shows "\<exists>discriminant cs d s s2. switchLoop S n [] None s = Ok (cs, d) s2 \<and>
      node = SwitchStatement discriminant (case d of None \<Rightarrow> cs | Some c \<Rightarrow> cs @ [c])"
  using assms unfolding parseSwitchStatement_def
  apply (elim andThen_OkE)
  apply (clarsimp split: prod.splits)
  apply (elim andThen_OkE)
  apply clarsimp
  apply (intro exI conjI)
   apply assumption
  apply (rule refl)
  done

text \<open>
  C10. Every node \<open>parseSwitchStatement\<close> returns is a switch statement in which
  all clauses but the last have a test: either no clause is the default, or the default is
  the last element of \<open>cases\<close>, wherever the source has it, and then the emitter prints
  \<open>default:\<close> and its statements behind all \<open>case\<close> clauses.
\<close>

theorem switch_default_last:
  assumes "parseSwitchStatement S n st = Ok node st'"
  shows "(\<exists>discriminant cs.
            node = SwitchStatement discriminant cs \<and> list_all (\<lambda>c. caseTest c \<noteq> None) cs)
         \<or> (\<exists>discriminant cs consequent.
               node = SwitchStatement discriminant (cs @ [SwitchCase None consequent])
               \<and> list_all (\<lambda>c. caseTest c \<noteq> None) cs
               \<and> generateNode fmt node
                   = ''switch ('' @ generateNode fmt discriminant @ '') {'' @ [CHR 0x0A]
                     @ concat (map (generateCase fmt) cs)
                     @ ''default:'' @ [CHR 0x0A]
                     @ concat (map (\<lambda>stmt. indent (generateNode fmt stmt) @ [CHR 0x0A])
                         consequent)
                     @ ''}'')"
proof -
  from parseSwitchStatement_shape [OF assms] obtain discriminant cs d s s2
    where loop: "switchLoop S n [] None s = Ok (cs, d) s2"
      and node: "node = SwitchStatement discriminant (case d of None \<Rightarrow> cs | Some c \<Rightarrow> cs @ [c])"
    by blast
  from switchLoop_inv [OF loop] have cs: "list_all (\<lambda>c. caseTest c \<noteq> None) cs"
    and d: "isDefault d"
    by (simp_all add: isDefault_def)
  show ?thesis
  proof (cases d)
    case None
    with node have n1: "node = SwitchStatement discriminant cs" by simp
    show ?thesis by (rule disjI1, intro exI conjI, rule n1, rule cs)
  next
    case (Some c)
    with d obtain consequent where c: "c = SwitchCase None consequent"
      by (cases c) (simp add: isDefault_def)
    from node Some c
    have n2: "node = SwitchStatement discriminant (cs @ [SwitchCase None consequent])"
      by simp
    have g: "generateNode fmt node
            = ''switch ('' @ generateNode fmt discriminant @ '') {'' @ [CHR 0x0A]
              @ concat (map (generateCase fmt) cs)
              @ ''default:'' @ [CHR 0x0A]
              @ concat (map (\<lambda>stmt. indent (generateNode fmt stmt) @ [CHR 0x0A]) consequent)
              @ ''}''"
      unfolding n2 by simp
    show ?thesis by (rule disjI2, intro exI conjI, rule n2, rule cs, rule g)
  qed
qed

lemma parse_defaultFirst:
  "parseSwitchStatement (parseStatement 20) 20 \<lparr>toks = defaultFirst, errors = [], warnings = []\<rparr>
     = Ok defaultFirstNode
         \<lparr>toks = [\<lparr>tok_type = EOF, tok_value = [], tok_position = 40\<rparr>],
          errors = [], warnings = []\<rparr>"
  unfolding defaultFirst_def defaultFirstNode_def by code_simp

theorem switch_default_last_witness:
  "parseSwitchStatement (parseStatement 20) 20 \<lparr>toks = defaultFirst, errors = [], warnings = []\<rparr>
     = Ok defaultFirstNode
         \<lparr>toks = [\<lparr>tok_type = EOF, tok_value = [], tok_position = 40\<rparr>],
          errors = [], warnings = []\<rparr>
   \<and> ((\<exists>discriminant cs.
            defaultFirstNode = SwitchStatement discriminant cs
            \<and> list_all (\<lambda>c. caseTest c \<noteq> None) cs)
         \<or> (\<exists>discriminant cs consequent.
               defaultFirstNode = SwitchStatement discriminant (cs @ [SwitchCase None consequent])
               \<and> list_all (\<lambda>c. caseTest c \<noteq> None) cs
               \<and> generateNode id defaultFirstNode
                   = ''switch ('' @ generateNode id discriminant @ '') {'' @ [CHR 0x0A]
                     @ concat (map (generateCase id) cs)
                     @ ''default:'' @ [CHR 0x0A]
                     @ concat (map (\<lambda>stmt. indent (generateNode id stmt) @ [CHR 0x0A])
                         consequent)
                     @ ''}''))
   \<and> generateNode id defaultFirstNode
       = ''switch (x) {'' @ [CHR 0x0A] @ ''case 1:'' @ [CHR 0x0A] @ ''  ;'' @ [CHR 0x0A]
         @ ''default:'' @ [CHR 0x0A] @ ''  break;'' @ [CHR 0x0A] @ ''}''"
proof -
  have g: "generateNode id defaultFirstNode
       = ''switch (x) {'' @ [CHR 0x0A] @ ''case 1:'' @ [CHR 0x0A] @ ''  ;'' @ [CHR 0x0A]
         @ ''default:'' @ [CHR 0x0A] @ ''  break;'' @ [CHR 0x0A] @ ''}''"
    unfolding defaultFirstNode_def by code_simp
  show ?thesis
    by (intro conjI) (rule parse_defaultFirst, rule switch_default_last [OF parse_defaultFirst],
        rule g)
qed

section \<open>The parser looks one token ahead\<close>

lemma agree_append: "agree K R B \<Longrightarrow> agree K (A @ R) (A @ B)"
  by (cases A; cases B) (auto simp: agree_def)

lemma agree_weaken: "agree noToken R B \<Longrightarrow> agree K R B"
  by (cases B) (auto simp: agree_def noToken_def)

lemma agree_same_head: "agree K (t # R) (t # B)"
  by (simp add: agree_def)

lemma lookaheadI:
  assumes "\<And>st v st'. P st = Ok v st' \<Longrightarrow>
             \<exists>A. toks st = A @ toks st'
               \<and> (\<forall>B. agree K (toks st') B \<longrightarrow> P (st\<lparr>toks := A @ B\<rparr>) = Ok v (st'\<lparr>toks := B\<rparr>))"
  shows "lookahead K P"
  using assms unfolding lookahead_def by blast

lemma lookaheadD:
  assumes "lookahead K P" and "P st = Ok v st'"
  obtains A where "toks st = A @ toks st'"
    and "\<And>B. agree K (toks st') B \<Longrightarrow> P (st\<lparr>toks := A @ B\<rparr>) = Ok v (st'\<lparr>toks := B\<rparr>)"
  using assms unfolding lookahead_def by blast

lemma lookahead_weaken: "lookahead K P \<Longrightarrow> lookahead noToken P"
  unfolding lookahead_def using agree_weaken by blast

lemma lookahead_length:
  "lookahead K P \<Longrightarrow> P st = Ok v st' \<Longrightarrow> length (toks st') \<le> length (toks st)"
  by (erule (1) lookaheadD) simp

lemma lookahead_andThen:
  assumes P: "lookahead K P" and Q: "\<And>v. lookahead K (Q v)"
  shows "lookahead K (\<lambda>st. andThen (P st) Q)"
proof (rule lookaheadI)
  fix st v st'
  assume "andThen (P st) Q = Ok v st'"
  then obtain w s where p: "P st = Ok w s" and q: "Q w s = Ok v st'"
    by (rule andThen_OkE)
  from lookaheadD [OF P p] obtain A1 where a1: "toks st = A1 @ toks s"
    and r1: "\<And>B. agree K (toks s) B \<Longrightarrow> P (st\<lparr>toks := A1 @ B\<rparr>) = Ok w (s\<lparr>toks := B\<rparr>)"
    by blast
  from lookaheadD [OF Q q] obtain A2 where a2: "toks s = A2 @ toks st'"
    and r2: "\<And>B. agree K (toks st') B \<Longrightarrow> Q w (s\<lparr>toks := A2 @ B\<rparr>) = Ok v (st'\<lparr>toks := B\<rparr>)"
    by blast
  have "andThen (P (st\<lparr>toks := (A1 @ A2) @ B\<rparr>)) Q = Ok v (st'\<lparr>toks := B\<rparr>)"
    if b: "agree K (toks st') B" for B
  proof -
    from b have "agree K (toks s) (A2 @ B)" unfolding a2 by (rule agree_append)
    from r1 [OF this] r2 [OF b] show ?thesis by simp
  qed
  with a1 a2 show "\<exists>A. toks st = A @ toks st'
      \<and> (\<forall>B. agree K (toks st') B \<longrightarrow>
             andThen (P (st\<lparr>toks := A @ B\<rparr>)) Q = Ok v (st'\<lparr>toks := B\<rparr>))"
    by (intro exI [of _ "A1 @ A2"]) simp
qed

text \<open>Behind a parser that consumes, the first one needs the same next token only.\<close>

lemma lookahead_andThen_consuming:
  assumes P: "lookahead noToken P" and Q: "\<And>v. lookahead K (Q v)" and c: "\<And>v. consumes (Q v)"
  shows "lookahead K (\<lambda>st. andThen (P st) Q)"
proof (rule lookaheadI)
  fix st v st'
  assume "andThen (P st) Q = Ok v st'"
  then obtain w s where p: "P st = Ok w s" and q: "Q w s = Ok v st'"
    by (rule andThen_OkE)
  from lookaheadD [OF P p] obtain A1 where a1: "toks st = A1 @ toks s"
    and r1: "\<And>B. agree noToken (toks s) B \<Longrightarrow> P (st\<lparr>toks := A1 @ B\<rparr>) = Ok w (s\<lparr>toks := B\<rparr>)"
    by blast
  from lookaheadD [OF Q q] obtain A2 where a2: "toks s = A2 @ toks st'"
    and r2: "\<And>B. agree K (toks st') B \<Longrightarrow> Q w (s\<lparr>toks := A2 @ B\<rparr>) = Ok v (st'\<lparr>toks := B\<rparr>)"
    by blast
  from c q have "length (toks st') < length (toks s)" unfolding consumes_def by blast
  with a2 obtain t A2' where A2: "A2 = t # A2'" by (cases A2) auto
  have "andThen (P (st\<lparr>toks := (A1 @ A2) @ B\<rparr>)) Q = Ok v (st'\<lparr>toks := B\<rparr>)"
    if b: "agree K (toks st') B" for B
  proof -
    have "agree noToken (toks s) (A2 @ B)" unfolding a2 A2 by (simp add: agree_def)
    from r1 [OF this] r2 [OF b] show ?thesis by simp
  qed
  with a1 a2 show "\<exists>A. toks st = A @ toks st'
      \<and> (\<forall>B. agree K (toks st') B \<longrightarrow>
             andThen (P (st\<lparr>toks := A @ B\<rparr>)) Q = Ok v (st'\<lparr>toks := B\<rparr>))"
    by (intro exI [of _ "A1 @ A2"]) simp
qed

lemma lookahead_consume: "lookahead K (consume ty v)"
proof (rule lookaheadI)
  fix st w st'
  assume run: "consume ty v st = Ok w st'"
  then obtain rest where t: "toks st = w # rest" and s: "st' = st\<lparr>toks := rest\<rparr>"
    by (cases "toks st") (auto simp: consume_def throwError_def split: if_splits)
  have "consume ty v (st\<lparr>toks := [w] @ B\<rparr>) = Ok w (st'\<lparr>toks := B\<rparr>)" for B
    using run t s by (auto simp: consume_def throwError_def split: if_splits)
  with t s show "\<exists>A. toks st = A @ toks st'
      \<and> (\<forall>B. agree K (toks st') B \<longrightarrow> consume ty v (st\<lparr>toks := A @ B\<rparr>) = Ok w (st'\<lparr>toks := B\<rparr>))"
    by (intro exI [of _ "[w]"]) simp
qed

lemma consumes_consume: "consumes (consume ty v)"
  unfolding consumes_def
  by (auto simp: consume_def throwError_def split: list.splits if_splits)

lemma lookahead_Ok: "lookahead K (\<lambda>st. Ok v st)"
  by (rule lookaheadI) (auto intro: exI [of _ "[]"])

lemma lookahead_Ok_update:
  assumes "\<And>st. toks (f st) = toks st" and "\<And>st B. f (st\<lparr>toks := B\<rparr>) = (f st)\<lparr>toks := B\<rparr>"
  shows "lookahead K (\<lambda>st. Ok v (f st))"
  by (rule lookaheadI) (auto intro!: exI [of _ "[]"] simp: assms)

lemma addWarning_toks [simp]: "toks (addWarning m st) = toks st"
  by (simp add: addWarning_def)

lemma addError_toks [simp]: "toks (addError m st) = toks st"
  by (simp add: addError_def)

lemma addWarning_update [simp]: "addWarning m (st\<lparr>toks := B\<rparr>) = (addWarning m st)\<lparr>toks := B\<rparr>"
  by (simp add: addWarning_def)

lemma addError_update [simp]: "addError m (st\<lparr>toks := B\<rparr>) = (addError m st)\<lparr>toks := B\<rparr>"
  by (simp add: addError_def)

lemma lookahead_never:
  assumes "\<And>st v st'. P st \<noteq> Ok v st'"
  shows "lookahead K P"
  using assms unfolding lookahead_def by blast

lemma consumes_andThen_first:
  assumes "consumes P" and "\<And>v. lookahead K (Q v)"
  shows "consumes (\<lambda>st. andThen (P st) Q)"
  unfolding consumes_def
proof (intro allI impI)
  fix st v st'
  assume "andThen (P st) Q = Ok v st'"
  then obtain w s where p: "P st = Ok w s" and q: "Q w s = Ok v st'"
    by (rule andThen_OkE)
  from assms(1) p have "length (toks s) < length (toks st)" unfolding consumes_def by blast
  moreover from lookahead_length [OF assms(2) q] have "length (toks st') \<le> length (toks s)" .
  ultimately show "length (toks st') < length (toks st)" by simp
qed

lemma consumes_andThen_second:
  assumes "lookahead K P" and "\<And>v. consumes (Q v)"
  shows "consumes (\<lambda>st. andThen (P st) Q)"
  unfolding consumes_def
proof (intro allI impI)
  fix st v st'
  assume "andThen (P st) Q = Ok v st'"
  then obtain w s where p: "P st = Ok w s" and q: "Q w s = Ok v st'"
    by (rule andThen_OkE)
  from assms(2) q have "length (toks st') < length (toks s)" unfolding consumes_def by blast
  moreover from lookahead_length [OF assms(1) p] have "length (toks s) \<le> length (toks st)" .
  ultimately show "length (toks st') < length (toks st)" by simp
qed

text \<open>
  A test of the next token. The branch taken on a token of \<open>K\<close> is the second one;
  the first one consumes, so it is never the branch that stops in front of the replaced
  tokens.
\<close>

lemma lookahead_test:
  assumes G: "lookahead K G" and cG: "consumes G" and H: "lookahead K H"
    and K: "\<And>b. K b \<Longrightarrow> \<not> c b"
  shows "lookahead K (\<lambda>st. withToken st (\<lambda>t. if c t then G st else H st))"
proof (rule lookaheadI)
  fix st v st'
  let ?P = "\<lambda>st. withToken st (\<lambda>t. if c t then G st else H st)"
  assume run: "?P st = Ok v st'"
  then obtain t rest where t: "toks st = t # rest"
    by (cases "toks st") (auto simp: withToken_def)
  show "\<exists>A. toks st = A @ toks st'
      \<and> (\<forall>B. agree K (toks st') B \<longrightarrow> ?P (st\<lparr>toks := A @ B\<rparr>) = Ok v (st'\<lparr>toks := B\<rparr>))"
  proof (cases "c t")
    case True
    with run t have g: "G st = Ok v st'" by (simp add: withToken_def)
    from lookaheadD [OF G g] obtain A where a: "toks st = A @ toks st'"
      and r: "\<And>B. agree K (toks st') B \<Longrightarrow> G (st\<lparr>toks := A @ B\<rparr>) = Ok v (st'\<lparr>toks := B\<rparr>)"
      by blast
    from cG g have "length (toks st') < length (toks st)" unfolding consumes_def by blast
    with a t obtain A' where A: "A = t # A'" by (cases A) auto
    have "?P (st\<lparr>toks := A @ B\<rparr>) = Ok v (st'\<lparr>toks := B\<rparr>)" if "agree K (toks st') B" for B
      using r [OF that] True by (simp add: withToken_def A)
    with a show ?thesis by blast
  next
    case False
    with run t have h: "H st = Ok v st'" by (simp add: withToken_def)
    from lookaheadD [OF H h] obtain A where a: "toks st = A @ toks st'"
      and r: "\<And>B. agree K (toks st') B \<Longrightarrow> H (st\<lparr>toks := A @ B\<rparr>) = Ok v (st'\<lparr>toks := B\<rparr>)"
      by blast
    have "?P (st\<lparr>toks := A @ B\<rparr>) = Ok v (st'\<lparr>toks := B\<rparr>)" if b: "agree K (toks st') B" for B
    proof (cases A)
      case (Cons a A')
      with a t have "a = t" by simp
      with r [OF b] False Cons show ?thesis by (simp add: withToken_def)
    next
      case Nil
      with a t have st': "toks st' = t # rest" by simp
      from b obtain b0 B' where B: "B = b0 # B'" by (cases B) (auto simp: agree_def)
      from b B st' have "b0 = t \<or> K b0" by (auto simp: agree_def)
      with K False have "\<not> c b0" by blast
      with r [OF b] Nil B show ?thesis by (simp add: withToken_def)
    qed
    with a show ?thesis by blast
  qed
qed

text \<open>The same test where neither branch needs more than the same next token.\<close>

lemma lookahead_test_same:
  assumes G: "lookahead noToken G" and H: "lookahead noToken H"
  shows "lookahead noToken (\<lambda>st. withToken st (\<lambda>t. if c t then G st else H st))"
proof (rule lookaheadI)
  fix st v st'
  let ?P = "\<lambda>st. withToken st (\<lambda>t. if c t then G st else H st)"
  assume run: "?P st = Ok v st'"
  then obtain t rest where t: "toks st = t # rest"
    by (cases "toks st") (auto simp: withToken_def)
  define F where "F = (if c t then G else H)"
  from run t have f: "F st = Ok v st'" by (auto simp: withToken_def F_def split: if_splits)
  have "lookahead noToken F" using G H by (simp add: F_def)
  from lookaheadD [OF this f] obtain A where a: "toks st = A @ toks st'"
    and r: "\<And>B. agree noToken (toks st') B \<Longrightarrow> F (st\<lparr>toks := A @ B\<rparr>) = Ok v (st'\<lparr>toks := B\<rparr>)"
    by blast
  have "?P (st\<lparr>toks := A @ B\<rparr>) = Ok v (st'\<lparr>toks := B\<rparr>)"
    if b: "agree noToken (toks st') B" for B
  proof -
    from b obtain b0 B' where B: "B = b0 # B'" by (cases B) (auto simp: agree_def)
    have "hd (A @ B) = t"
    proof (cases A)
      case (Cons a A')
      with a t show ?thesis by simp
    next
      case Nil
      with a t have st': "toks st' = t # rest" by simp
      from b B st' Nil show ?thesis by (auto simp: agree_def noToken_def)
    qed
    moreover have "A @ B \<noteq> []" using B by simp
    ultimately obtain X where "A @ B = t # X" by (cases "A @ B") auto
    with r [OF b] show ?thesis by (auto simp: withToken_def F_def split: if_splits)
  qed
  with a show "\<exists>A. toks st = A @ toks st'
      \<and> (\<forall>B. agree noToken (toks st') B \<longrightarrow> ?P (st\<lparr>toks := A @ B\<rparr>) = Ok v (st'\<lparr>toks := B\<rparr>))"
    by blast
qed

lemma withToken_nest:
  "withToken st (\<lambda>t. if c t then X else F t)
     = withToken st (\<lambda>t. if c t then X else withToken st F)"
  by (cases "toks st") (simp_all add: withToken_def)

lemma consumes_test:
  assumes "consumes G" and "consumes H"
  shows "consumes (\<lambda>st. withToken st (\<lambda>t. if c t then G st else H st))"
  unfolding consumes_def
proof (intro allI impI)
  fix st v st'
  assume run: "withToken st (\<lambda>t. if c t then G st else H st) = Ok v st'"
  then obtain t rest where t: "toks st = t # rest"
    by (cases "toks st") (auto simp: withToken_def)
  with run have "G st = Ok v st' \<or> H st = Ok v st'"
    by (auto simp: withToken_def split: if_splits)
  with assms show "length (toks st') < length (toks st)"
    unfolding consumes_def by blast
qed

lemma consumes_never:
  assumes "\<And>st v st'. P st \<noteq> Ok v st'"
  shows "consumes P"
  using assms unfolding consumes_def by blast

text \<open>
  The parts of the expression parser that stand in front of a closing bracket: they need
  the same next token only. \<open>E\<close> is the parser of the nested expressions.
\<close>

lemmas lookahead_same_rules =
  lookahead_andThen lookahead_test_same lookahead_consume lookahead_Ok lookahead_Ok_update

lemma parseArguments_lookahead:
  assumes E: "lookahead noToken E"
  shows "lookahead noToken (parseArguments E n args)"
proof (induction n arbitrary: args)
  case 0
  show ?case by (rule lookahead_never) simp
next
  case (Suc n)
  have eq: "parseArguments E (Suc n) args =
      (\<lambda>st. andThen (E st) (\<lambda>arg st.
         withToken st (\<lambda>t.
           if matches t PUNCTUATION '','' then
             (\<lambda>st. andThen (consume None None st) (\<lambda>_. parseArguments E n (args @ [arg]))) st
           else (\<lambda>st. Ok (args @ [arg]) st) st)))"
    by (rule ext) simp
  show ?case unfolding eq
    by (intro lookahead_same_rules E Suc.IH)
qed

lemma parsePropertyKey_lookahead:
  assumes E: "lookahead noToken E"
  shows "lookahead noToken (parsePropertyKey E)"
proof -
  have eq: "parsePropertyKey E =
      (\<lambda>st. withToken st (\<lambda>t.
         if matches t BRACKET ''['' then
           (\<lambda>st. andThen (consume (Some BRACKET) (Some ''['') st) (\<lambda>_ st.
                  andThen (E st) (\<lambda>key st.
                  andThen (consume (Some BRACKET) (Some '']'') st) (\<lambda>_ st.
                    Ok (Some (Inr key)) st)))) st
         else (\<lambda>st. withToken st (\<lambda>t.
           if matchesType t IDENTIFIER then
             (\<lambda>st. andThen (consume (Some IDENTIFIER) None st) (\<lambda>token st.
                    Ok (Some (Inl (tok_value token))) st)) st
           else (\<lambda>st. withToken st (\<lambda>t.
             if matchesType t STRING then
               (\<lambda>st. andThen (consume (Some STRING) None st) (\<lambda>token st.
                      Ok (Some (Inl (stripQuotes (tok_value token)))) st)) st
             else (\<lambda>st. Ok None (addError ''Expected property name in object literal'' st)) st))
             st)) st))"
    by (rule ext) (simp add: parsePropertyKey_def withToken_def split: list.splits)
  show ?thesis unfolding eq
    by (intro lookahead_same_rules E) simp_all
qed

lemma parsePropertyValue_lookahead:
  assumes E: "lookahead noToken E"
  shows "lookahead noToken (parsePropertyValue E key)"
proof -
  have eq: "parsePropertyValue E key =
      (\<lambda>st. withToken st (\<lambda>t.
         if matches t PUNCTUATION '':'' then
           (\<lambda>st. andThen (consume (Some PUNCTUATION) (Some '':'') st) (\<lambda>_ st.
                  andThen (E st) (\<lambda>v st. Ok (Some v) st))) st
         else (\<lambda>st. case key of
                 Inl name \<Rightarrow> Ok (Some (Identifier name None)) st
               | Inr _ \<Rightarrow> Ok None
                   (addError (''Expected '' @ [CHR 0x27] @ '':'' @ [CHR 0x27]
                      @ '' after property name in object literal'') st)) st))"
    by (rule ext) (simp add: parsePropertyValue_def)
  have other: "lookahead noToken (\<lambda>st. case key of
                 Inl name \<Rightarrow> Ok (Some (Identifier name None)) st
               | Inr _ \<Rightarrow> Ok None
                   (addError (''Expected '' @ [CHR 0x27] @ '':'' @ [CHR 0x27]
                      @ '' after property name in object literal'') st))"
    by (cases key) (simp_all add: lookahead_Ok lookahead_Ok_update)
  show ?thesis unfolding eq
    by (intro lookahead_test_same lookahead_andThen lookahead_consume lookahead_Ok E other)
qed

lemma skipComma_lookahead: "lookahead noToken skipComma"
proof -
  have eq: "skipComma =
      (\<lambda>st. withToken st (\<lambda>t.
         if matches t PUNCTUATION '','' then
           (\<lambda>st. andThen (consume None None st) (\<lambda>_ st. Ok () st)) st
         else (\<lambda>st. Ok () st) st))"
    by (rule ext) (simp add: skipComma_def)
  show ?thesis unfolding eq
    by (intro lookahead_same_rules)
qed

lemma parseProperties_lookahead:
  assumes E: "lookahead noToken E"
  shows "lookahead noToken (parseProperties E n properties)"
proof (induction n arbitrary: properties)
  case 0
  show ?case by (rule lookahead_never) simp
next
  case (Suc n)
  let ?more = "\<lambda>k v. (\<lambda>st. withToken st (\<lambda>t.
                 if matches t PUNCTUATION '','' then
                   (\<lambda>st. andThen (consume None None st) (\<lambda>_.
                      parseProperties E n (properties @ [makeProperty k v]))) st
                 else (\<lambda>st. withToken st (\<lambda>t.
                   if \<not> matches t BRACKET ''}'' then
                     (\<lambda>st. parseProperties E n (properties @ [makeProperty k v])
                        (addWarning (''Expected '' @ [CHR 0x27] @ '','' @ [CHR 0x27]
                           @ '' after property in object literal'') st)) st
                   else parseProperties E n (properties @ [makeProperty k v]) st)) st))"
  have eq: "parseProperties E (Suc n) properties =
      (\<lambda>st. withToken st (\<lambda>t.
         if \<not> matches t BRACKET ''}'' \<and> \<not> matchesType t EOF then
           (\<lambda>st. andThen (parsePropertyKey E st) (\<lambda>key.
              case key of
                None \<Rightarrow> (\<lambda>st. andThen (skipComma st) (\<lambda>_. parseProperties E n properties))
              | Some k \<Rightarrow>
                  (\<lambda>st. andThen (parsePropertyValue E k st) (\<lambda>v.
                     case v of
                       None \<Rightarrow> (\<lambda>st. andThen (skipComma st) (\<lambda>_. parseProperties E n properties))
                     | Some v \<Rightarrow> ?more k v)))) st
         else (\<lambda>st. Ok properties st) st))"
    by (rule ext)
       (auto simp: withToken_def split: list.splits option.splits intro!: arg_cong2 [of _ _ _ _ andThen] ext)
  have warn: "lookahead noToken (\<lambda>st. parseProperties E n ps (addWarning m st))" for ps m
  proof -
    have "(\<lambda>st. parseProperties E n ps (addWarning m st))
            = (\<lambda>st. andThen (Ok () (addWarning m st)) (\<lambda>_. parseProperties E n ps))"
      by simp
    then show ?thesis
      by (simp only:) (intro lookahead_andThen lookahead_Ok_update Suc.IH; simp)
  qed
  have more: "lookahead noToken (?more k v)" for k v
    by (intro lookahead_test_same lookahead_andThen lookahead_consume Suc.IH warn)
  have skip: "lookahead noToken (\<lambda>st. andThen (skipComma st) (\<lambda>_. parseProperties E n properties))"
    by (intro lookahead_andThen skipComma_lookahead Suc.IH)
  have val: "lookahead noToken (case v of
                       None \<Rightarrow> (\<lambda>st. andThen (skipComma st) (\<lambda>_. parseProperties E n properties))
                     | Some v \<Rightarrow> ?more k v)" for k v
    by (cases v) (simp_all add: skip more)
  have key: "lookahead noToken (case key of
                None \<Rightarrow> (\<lambda>st. andThen (skipComma st) (\<lambda>_. parseProperties E n properties))
              | Some k \<Rightarrow>
                  (\<lambda>st. andThen (parsePropertyValue E k st) (\<lambda>v.
                     case v of
                       None \<Rightarrow> (\<lambda>st. andThen (skipComma st) (\<lambda>_. parseProperties E n properties))
                     | Some v \<Rightarrow> ?more k v)))" for key
    by (cases key) (simp_all add: skip lookahead_andThen [OF parsePropertyValue_lookahead [OF E] val])
  show ?case unfolding eq
    by (intro lookahead_test_same lookahead_andThen parsePropertyKey_lookahead E key lookahead_Ok)
qed

lemma parseElements_lookahead:
  assumes E: "lookahead noToken E"
  shows "lookahead noToken (parseElements E n elements)"
proof (induction n arbitrary: elements)
  case 0
  show ?case by (rule lookahead_never) simp
next
  case (Suc n)
  let ?more = "\<lambda>e. (\<lambda>st. withToken st (\<lambda>t.
                 if matches t PUNCTUATION '','' then
                   (\<lambda>st. andThen (consume None None st) (\<lambda>_.
                      parseElements E n (elements @ [Some e]))) st
                 else (\<lambda>st. withToken st (\<lambda>t.
                   if \<not> matches t BRACKET '']'' then
                     (\<lambda>st. parseElements E n (elements @ [Some e])
                        (addWarning (''Expected '' @ [CHR 0x27] @ '','' @ [CHR 0x27]
                           @ '' after array element'') st)) st
                   else parseElements E n (elements @ [Some e]) st)) st))"
  have eq: "parseElements E (Suc n) elements =
      (\<lambda>st. withToken st (\<lambda>t.
         if \<not> matches t BRACKET '']'' \<and> \<not> matchesType t EOF then
           (\<lambda>st. withToken st (\<lambda>t.
              if matches t PUNCTUATION '','' then
                (\<lambda>st. andThen (consume None None st) (\<lambda>_.
                   parseElements E n (elements @ [None]))) st
              else (\<lambda>st. andThen (E st) ?more) st)) st
         else (\<lambda>st. Ok elements st) st))"
    by (rule ext)
       (auto simp: withToken_def split: list.splits intro!: arg_cong2 [of _ _ _ _ andThen] ext)
  have warn: "lookahead noToken (\<lambda>st. parseElements E n es (addWarning m st))" for es m
  proof -
    have "(\<lambda>st. parseElements E n es (addWarning m st))
            = (\<lambda>st. andThen (Ok () (addWarning m st)) (\<lambda>_. parseElements E n es))"
      by simp
    then show ?thesis
      by (simp only:) (intro lookahead_andThen lookahead_Ok_update Suc.IH; simp)
  qed
  have more: "lookahead noToken (?more e)" for e
    by (intro lookahead_test_same lookahead_andThen lookahead_consume Suc.IH warn)
  show ?case unfolding eq
    by (intro lookahead_test_same lookahead_andThen lookahead_consume lookahead_Ok E more Suc.IH)
qed

text \<open>
  The parts that end behind a token of their own or stop in front of a token that
  continues no expression: there a semicolon may take the place of the next token.
\<close>

lemma isSemicolon_simps [simp]:
  "isSemicolon b \<Longrightarrow> \<not> matches b PUNCTUATION ''(''"
  "isSemicolon b \<Longrightarrow> \<not> matches b PUNCTUATION ''.''"
  "isSemicolon b \<Longrightarrow> \<not> matches b BRACKET v"
  "isSemicolon b \<Longrightarrow> \<not> matches b KEYWORD v"
  "isSemicolon b \<Longrightarrow> \<not> matches b SAAAM_KEYWORD v"
  "isSemicolon b \<Longrightarrow> \<not> matches b OPERATOR v"
  "isSemicolon b \<Longrightarrow> tok_type b = PUNCTUATION"
  "isSemicolon b \<Longrightarrow> \<not> matchesType b IDENTIFIER"
  "isSemicolon b \<Longrightarrow> \<not> matchesType b NUMBER"
  "isSemicolon b \<Longrightarrow> \<not> matchesType b STRING"
  by (auto simp: isSemicolon_def matches_def matchesType_def)

lemma checkBuiltinCall_toks: "toks (checkBuiltinCall callee args st) = toks st"
  by (cases callee) (simp_all add: checkBuiltinCall_def Let_def)

lemma checkBuiltinCall_update:
  "checkBuiltinCall callee args (st\<lparr>toks := B\<rparr>) = (checkBuiltinCall callee args st)\<lparr>toks := B\<rparr>"
  by (cases callee) (simp_all add: checkBuiltinCall_def Let_def)

lemma parseCallExpression_lookahead:
  assumes E: "lookahead noToken E"
  shows "lookahead K (parseCallExpression E n callee)" and "consumes (parseCallExpression E n callee)"
proof -
  let ?close = "\<lambda>args st. andThen (consume (Some PUNCTUATION) (Some '')'') st) (\<lambda>_ st.
       Ok (CallExpression callee args) (checkBuiltinCall callee args st))"
  let ?args = "\<lambda>st. withToken st (\<lambda>t.
                if \<not> matches t PUNCTUATION '')'' then parseArguments E n [] st
                else (\<lambda>st. Ok [] st) st)"
  have eq: "parseCallExpression E n callee =
      (\<lambda>st. andThen (consume (Some PUNCTUATION) (Some ''('') st) (\<lambda>_ st.
         andThen (?args st) ?close))"
    by (rule ext) (simp add: parseCallExpression_def)
  have close: "lookahead K (?close args)" for args
    by (intro lookahead_andThen lookahead_consume lookahead_Ok_update)
       (simp_all add: checkBuiltinCall_toks checkBuiltinCall_update)
  have closeC: "consumes (?close args)" for args
    by (intro consumes_andThen_first [where K = K] consumes_consume lookahead_Ok_update)
       (simp_all add: checkBuiltinCall_toks checkBuiltinCall_update)
  have args: "lookahead noToken ?args"
    by (intro lookahead_test_same parseArguments_lookahead E lookahead_Ok)
  have inner: "lookahead K (\<lambda>st. andThen (?args st) ?close)"
    by (rule lookahead_andThen_consuming [OF args close closeC])
  show "lookahead K (parseCallExpression E n callee)" unfolding eq
    by (intro lookahead_andThen lookahead_consume inner)
  show "consumes (parseCallExpression E n callee)" unfolding eq
    by (intro consumes_andThen_first [where K = K] consumes_consume inner)
qed

lemma parseMemberExpression_lookahead:
  "lookahead K (parseMemberExpression object)" "consumes (parseMemberExpression object)"
proof -
  have eq: "parseMemberExpression object =
      (\<lambda>st. andThen (consume (Some PUNCTUATION) (Some ''.'') st) (\<lambda>_ st.
         andThen (consume (Some IDENTIFIER) None st) (\<lambda>property st.
           Ok (MemberExpression object (Inl (tok_value property)) False) st)))"
    by (rule ext) (simp add: parseMemberExpression_def)
  show "lookahead K (parseMemberExpression object)" unfolding eq
    by (intro lookahead_andThen lookahead_consume lookahead_Ok)
  show "consumes (parseMemberExpression object)" unfolding eq
    by (intro consumes_andThen_first [where K = K] consumes_consume lookahead_andThen
        lookahead_consume lookahead_Ok)
qed

text \<open>An expression between two tokens, as in \<open>[ e ]\<close> and \<open>( e )\<close>.\<close>

lemma bracketed_lookahead:
  assumes E: "lookahead noToken E"
  shows "lookahead K (\<lambda>st. andThen (consume ty1 v1 st) (\<lambda>_ st.
           andThen (E st) (\<lambda>e st.
           andThen (consume ty2 v2 st) (\<lambda>_ st. Ok (f e) st))))"
    and "consumes (\<lambda>st. andThen (consume ty1 v1 st) (\<lambda>_ st.
           andThen (E st) (\<lambda>e st.
           andThen (consume ty2 v2 st) (\<lambda>_ st. Ok (f e) st))))"
proof -
  let ?close = "\<lambda>e st. andThen (consume ty2 v2 st) (\<lambda>_ st. Ok (f e) st)"
  have close: "lookahead K (?close e)" for e
    by (intro lookahead_andThen lookahead_consume lookahead_Ok)
  have closeC: "consumes (?close e)" for e
    by (intro consumes_andThen_first [where K = K] consumes_consume lookahead_Ok)
  have inner: "lookahead K (\<lambda>st. andThen (E st) ?close)"
    by (rule lookahead_andThen_consuming [OF E close closeC])
  show "lookahead K (\<lambda>st. andThen (consume ty1 v1 st) (\<lambda>_ st. andThen (E st) ?close))"
    by (intro lookahead_andThen lookahead_consume inner)
  show "consumes (\<lambda>st. andThen (consume ty1 v1 st) (\<lambda>_ st. andThen (E st) ?close))"
    by (intro consumes_andThen_first [where K = K] consumes_consume inner)
qed

lemma parseIndexExpression_lookahead:
  assumes E: "lookahead noToken E"
  shows "lookahead K (parseIndexExpression E object)" "consumes (parseIndexExpression E object)"
proof -
  have eq: "parseIndexExpression E object =
      (\<lambda>st. andThen (consume (Some BRACKET) (Some ''['') st) (\<lambda>_ st.
         andThen (E st) (\<lambda>property st.
         andThen (consume (Some BRACKET) (Some '']'') st) (\<lambda>_ st.
           Ok (MemberExpression object (Inr property) True) st))))"
    by (rule ext) (simp add: parseIndexExpression_def)
  show "lookahead K (parseIndexExpression E object)" unfolding eq
    by (rule bracketed_lookahead [OF E])
  show "consumes (parseIndexExpression E object)" unfolding eq
    by (rule bracketed_lookahead [OF E])
qed

lemma parseObjectLiteral_lookahead:
  assumes E: "lookahead noToken E"
  shows "lookahead K (parseObjectLiteral E n)" "consumes (parseObjectLiteral E n)"
proof -
  have eq: "parseObjectLiteral E n =
      (\<lambda>st. andThen (consume (Some BRACKET) (Some ''{'') st) (\<lambda>_ st.
         andThen (parseProperties E n [] st) (\<lambda>properties st.
         andThen (consume (Some BRACKET) (Some ''}'') st) (\<lambda>_ st.
           Ok (ObjectExpression properties) st))))"
    by (rule ext) (simp add: parseObjectLiteral_def)
  show "lookahead K (parseObjectLiteral E n)" unfolding eq
    by (rule bracketed_lookahead [OF parseProperties_lookahead [OF E]])
  show "consumes (parseObjectLiteral E n)" unfolding eq
    by (rule bracketed_lookahead [OF parseProperties_lookahead [OF E]])
qed

lemma parseArrayLiteral_lookahead:
  assumes E: "lookahead noToken E"
  shows "lookahead K (parseArrayLiteral E n)" "consumes (parseArrayLiteral E n)"
proof -
  have eq: "parseArrayLiteral E n =
      (\<lambda>st. andThen (consume (Some BRACKET) (Some ''['') st) (\<lambda>_ st.
         andThen (parseElements E n [] st) (\<lambda>elements st.
         andThen (consume (Some BRACKET) (Some '']'') st) (\<lambda>_ st.
           Ok (ArrayExpression elements) st))))"
    by (rule ext) (simp add: parseArrayLiteral_def)
  show "lookahead K (parseArrayLiteral E n)" unfolding eq
    by (rule bracketed_lookahead [OF parseElements_lookahead [OF E]])
  show "consumes (parseArrayLiteral E n)" unfolding eq
    by (rule bracketed_lookahead [OF parseElements_lookahead [OF E]])
qed

lemma token_lookahead:
  "lookahead K (\<lambda>st. andThen (consume ty v st) (\<lambda>token st. Ok (f token) st))"
  "consumes (\<lambda>st. andThen (consume ty v st) (\<lambda>token st. Ok (f token) st))"
  by (intro lookahead_andThen lookahead_consume lookahead_Ok,
      intro consumes_andThen_first [where K = K] consumes_consume lookahead_Ok)

lemma vec2_lookahead:
  assumes E: "lookahead noToken E"
    and W: "W = (\<lambda>st. andThen (consume None None st) (\<lambda>_ st.
           andThen (consume (Some PUNCTUATION) (Some ''('') st) (\<lambda>_ st.
           andThen (E st) (\<lambda>x st.
           andThen (consume (Some PUNCTUATION) (Some '','') st) (\<lambda>_ st.
           andThen (E st) (\<lambda>y st.
           andThen (consume (Some PUNCTUATION) (Some '')'') st) (\<lambda>_ st.
             Ok (Vec2Expression x y) st)))))))"
  shows "lookahead K W" and "consumes W"
proof -
  let ?close = "\<lambda>x y st. andThen (consume (Some PUNCTUATION) (Some '')'') st) (\<lambda>_ st.
             Ok (Vec2Expression x y) st)"
  let ?second = "\<lambda>x st. andThen (consume (Some PUNCTUATION) (Some '','') st) (\<lambda>_ st.
           andThen (E st) (?close x))"
  have y: "lookahead K (\<lambda>st. andThen (E st) (?close x))" for x
    by (rule lookahead_andThen_consuming [OF E token_lookahead])
  have second: "lookahead K (?second x)" for x
    by (intro lookahead_andThen lookahead_consume y)
  have secondC: "consumes (?second x)" for x
    by (intro consumes_andThen_first [where K = K] consumes_consume y)
  have x: "lookahead K (\<lambda>st. andThen (E st) ?second)"
    by (rule lookahead_andThen_consuming [OF E second secondC])
  show "lookahead K W" unfolding W
    by (intro lookahead_andThen lookahead_consume x)
  show "consumes W" unfolding W
    by (intro consumes_andThen_first [where K = K] consumes_consume lookahead_andThen
        lookahead_consume x)
qed

lemma vec3_lookahead:
  assumes E: "lookahead noToken E"
    and W: "W = (\<lambda>st. andThen (consume None None st) (\<lambda>_ st.
           andThen (consume (Some PUNCTUATION) (Some ''('') st) (\<lambda>_ st.
           andThen (E st) (\<lambda>x st.
           andThen (consume (Some PUNCTUATION) (Some '','') st) (\<lambda>_ st.
           andThen (E st) (\<lambda>y st.
           andThen (consume (Some PUNCTUATION) (Some '','') st) (\<lambda>_ st.
           andThen (E st) (\<lambda>z st.
           andThen (consume (Some PUNCTUATION) (Some '')'') st) (\<lambda>_ st.
             Ok (Vec3Expression x y z) st)))))))))"
  shows "lookahead K W" and "consumes W"
proof -
  let ?close = "\<lambda>x y z st. andThen (consume (Some PUNCTUATION) (Some '')'') st) (\<lambda>_ st.
             Ok (Vec3Expression x y z) st)"
  let ?third = "\<lambda>x y st. andThen (consume (Some PUNCTUATION) (Some '','') st) (\<lambda>_ st.
           andThen (E st) (?close x y))"
  let ?second = "\<lambda>x st. andThen (consume (Some PUNCTUATION) (Some '','') st) (\<lambda>_ st.
           andThen (E st) (?third x))"
  have z: "lookahead K (\<lambda>st. andThen (E st) (?close x y))" for x y
    by (rule lookahead_andThen_consuming [OF E token_lookahead])
  have third: "lookahead K (?third x y)" for x y
    by (intro lookahead_andThen lookahead_consume z)
  have thirdC: "consumes (?third x y)" for x y
    by (intro consumes_andThen_first [where K = K] consumes_consume z)
  have y: "lookahead K (\<lambda>st. andThen (E st) (?third x))" for x
    by (rule lookahead_andThen_consuming [OF E third thirdC])
  have second: "lookahead K (?second x)" for x
    by (intro lookahead_andThen lookahead_consume y)
  have secondC: "consumes (?second x)" for x
    by (intro consumes_andThen_first [where K = K] consumes_consume y)
  have x: "lookahead K (\<lambda>st. andThen (E st) ?second)"
    by (rule lookahead_andThen_consuming [OF E second secondC])
  show "lookahead K W" unfolding W
    by (intro lookahead_andThen lookahead_consume x)
  show "consumes W" unfolding W
    by (intro consumes_andThen_first [where K = K] consumes_consume lookahead_andThen
        lookahead_consume x)
qed

lemma parsePrimary_nested:
  "parsePrimary E n =
     (\<lambda>st. withToken st (\<lambda>t.
       if matches t KEYWORD ''this'' then
         (\<lambda>st. andThen (consume None None st) (\<lambda>_ st. Ok ThisExpression st)) st
       else (\<lambda>st. withToken st (\<lambda>t.
       if matches t SAAAM_KEYWORD ''vec2'' then
         (\<lambda>st. andThen (consume None None st) (\<lambda>_ st.
         andThen (consume (Some PUNCTUATION) (Some ''('') st) (\<lambda>_ st.
         andThen (E st) (\<lambda>x st.
         andThen (consume (Some PUNCTUATION) (Some '','') st) (\<lambda>_ st.
         andThen (E st) (\<lambda>y st.
         andThen (consume (Some PUNCTUATION) (Some '')'') st) (\<lambda>_ st.
           Ok (Vec2Expression x y) st))))))) st
       else (\<lambda>st. withToken st (\<lambda>t.
       if matches t SAAAM_KEYWORD ''vec3'' then
         (\<lambda>st. andThen (consume None None st) (\<lambda>_ st.
         andThen (consume (Some PUNCTUATION) (Some ''('') st) (\<lambda>_ st.
         andThen (E st) (\<lambda>x st.
         andThen (consume (Some PUNCTUATION) (Some '','') st) (\<lambda>_ st.
         andThen (E st) (\<lambda>y st.
         andThen (consume (Some PUNCTUATION) (Some '','') st) (\<lambda>_ st.
         andThen (E st) (\<lambda>z st.
         andThen (consume (Some PUNCTUATION) (Some '')'') st) (\<lambda>_ st.
           Ok (Vec3Expression x y z) st))))))))) st
       else (\<lambda>st. withToken st (\<lambda>t.
       if matchesType t IDENTIFIER then
         (\<lambda>st. andThen (consume (Some IDENTIFIER) None st) (\<lambda>token st.
           Ok (Identifier (tok_value token) (Some (isPredefined (tok_value token)))) st)) st
       else (\<lambda>st. withToken st (\<lambda>t.
       if matchesType t NUMBER then
         (\<lambda>st. andThen (consume (Some NUMBER) None st) (\<lambda>token st.
           Ok (Literal (NumberValue (tok_value token))) st)) st
       else (\<lambda>st. withToken st (\<lambda>t.
       if matchesType t STRING then
         (\<lambda>st. andThen (consume (Some STRING) None st) (\<lambda>token st.
           Ok (Literal (StringValue (stripQuotes (tok_value token)) (tok_value token))) st)) st
       else (\<lambda>st. withToken st (\<lambda>t.
       if matches t KEYWORD ''true'' then
         (\<lambda>st. andThen (consume None None st) (\<lambda>_ st. Ok (Literal (BoolValue True)) st)) st
       else (\<lambda>st. withToken st (\<lambda>t.
       if matches t KEYWORD ''false'' then
         (\<lambda>st. andThen (consume None None st) (\<lambda>_ st. Ok (Literal (BoolValue False)) st)) st
       else (\<lambda>st. withToken st (\<lambda>t.
       if matches t KEYWORD ''null'' then
         (\<lambda>st. andThen (consume None None st) (\<lambda>_ st. Ok (Literal NullValue) st)) st
       else (\<lambda>st. withToken st (\<lambda>t.
       if matches t KEYWORD ''undefined'' then
         (\<lambda>st. andThen (consume None None st) (\<lambda>_ st. Ok (Identifier ''undefined'' None) st)) st
       else (\<lambda>st. withToken st (\<lambda>t.
       if matches t BRACKET ''{'' then parseObjectLiteral E n st
       else (\<lambda>st. withToken st (\<lambda>t.
       if matches t BRACKET ''['' then parseArrayLiteral E n st
       else (\<lambda>st. withToken st (\<lambda>t.
       if matches t PUNCTUATION ''('' then
         (\<lambda>st. andThen (consume None None st) (\<lambda>_ st.
         andThen (E st) (\<lambda>expr st.
         andThen (consume (Some PUNCTUATION) (Some '')'') st) (\<lambda>_ st.
           Ok expr st)))) st
       else (\<lambda>st. withToken st (\<lambda>t. throwError (''Unexpected token: '' @ tok_value t) st)) st
       )) st)) st)) st)) st)) st)) st)) st)) st)) st)) st)) st)) st))"
  apply (rule ext)
  subgoal for st
    by (cases "toks st") (simp_all add: parsePrimary_def withToken_def)
  done

lemma throw_never: "withToken st (\<lambda>t. throwError (m t) st) \<noteq> Ok v st'"
  by (simp add: withToken_def throwError_def split: list.splits)

lemma parsePrimary_lookahead:
  assumes E: "lookahead noToken E"
  shows "lookahead isSemicolon (parsePrimary E n)" and "consumes (parsePrimary E n)"
proof -
  note branches = token_lookahead vec2_lookahead [OF E refl] vec3_lookahead [OF E refl]
    parseObjectLiteral_lookahead [OF E] parseArrayLiteral_lookahead [OF E]
    bracketed_lookahead [OF E, where f = "\<lambda>e. e"]
  show "lookahead isSemicolon (parsePrimary E n)"
    unfolding parsePrimary_nested
    by (intro lookahead_test branches lookahead_never throw_never) simp_all
  show "consumes (parsePrimary E n)"
    unfolding parsePrimary_nested
    by (intro consumes_test branches consumes_never throw_never)
qed

lemma callOrMemberLoop_lookahead:
  assumes E: "lookahead noToken E"
  shows "lookahead isSemicolon (callOrMemberLoop E n expression)"
proof (induction n arbitrary: expression)
  case 0
  show ?case by (rule lookahead_never) simp
next
  case (Suc n)
  have eq: "callOrMemberLoop E (Suc n) expression =
      (\<lambda>st. withToken st (\<lambda>t.
         if matches t PUNCTUATION ''('' then
           (\<lambda>st. andThen (parseCallExpression E n expression st) (callOrMemberLoop E n)) st
         else (\<lambda>st. withToken st (\<lambda>t.
         if matches t PUNCTUATION ''.'' then
           (\<lambda>st. andThen (parseMemberExpression expression st) (callOrMemberLoop E n)) st
         else (\<lambda>st. withToken st (\<lambda>t.
         if matches t BRACKET ''['' then
           (\<lambda>st. andThen (parseIndexExpression E expression st) (callOrMemberLoop E n)) st
         else (\<lambda>st. Ok expression st) st)) st)) st))"
    by (rule ext) (simp add: withToken_def split: list.splits)
  show ?case unfolding eq
    by (intro lookahead_test lookahead_andThen consumes_andThen_first [where K = isSemicolon]
        parseCallExpression_lookahead [OF E] parseMemberExpression_lookahead
        parseIndexExpression_lookahead [OF E] Suc.IH lookahead_Ok) simp_all
qed

lemma parseCallOrMember_lookahead:
  assumes E: "lookahead noToken E"
  shows "lookahead isSemicolon (parseCallOrMember E n)" and "consumes (parseCallOrMember E n)"
proof -
  have eq: "parseCallOrMember E n = (\<lambda>st. andThen (parsePrimary E n st) (callOrMemberLoop E n))"
    by (rule ext) (simp add: parseCallOrMember_def)
  show "lookahead isSemicolon (parseCallOrMember E n)" unfolding eq
    by (intro lookahead_andThen parsePrimary_lookahead [OF E] callOrMemberLoop_lookahead [OF E])
  show "consumes (parseCallOrMember E n)" unfolding eq
    by (intro consumes_andThen_first [where K = isSemicolon] parsePrimary_lookahead [OF E]
        callOrMemberLoop_lookahead [OF E])
qed

lemma parseUnary_lookahead:
  assumes E: "lookahead noToken E"
  shows "lookahead isSemicolon (parseUnary E n) \<and> consumes (parseUnary E n)"
proof (induction n)
  case 0
  show ?case by (intro conjI lookahead_never consumes_never) simp_all
next
  case (Suc n)
  have eq: "parseUnary E (Suc n) =
      (\<lambda>st. withToken st (\<lambda>t.
         if matches t OPERATOR ''-'' \<or> matches t OPERATOR ''!'' \<or> matches t OPERATOR ''+'' then
           (\<lambda>st. andThen (consume None None st) (\<lambda>operator st.
              andThen (parseUnary E n st) (\<lambda>argument st.
                Ok (UnaryExpression (tok_value operator) argument) st))) st
         else parseCallOrMember E n st))"
    by (rule ext) simp
  from Suc.IH have ih: "lookahead isSemicolon (parseUnary E n)" by simp
  have op: "lookahead isSemicolon (\<lambda>st. andThen (consume None None st) (\<lambda>operator st.
              andThen (parseUnary E n st) (\<lambda>argument st.
                Ok (UnaryExpression (tok_value operator) argument) st)))"
    by (intro lookahead_andThen lookahead_consume ih lookahead_Ok)
  have opC: "consumes (\<lambda>st. andThen (consume None None st) (\<lambda>operator st.
              andThen (parseUnary E n st) (\<lambda>argument st.
                Ok (UnaryExpression (tok_value operator) argument) st)))"
    by (intro consumes_andThen_first [where K = isSemicolon] consumes_consume lookahead_andThen
        ih lookahead_Ok)
  show ?case unfolding eq
    by (intro conjI lookahead_test consumes_test op opC parseCallOrMember_lookahead [OF E])
       simp_all
qed

lemma binaryLoop_lookahead:
  assumes operand: "lookahead isSemicolon operand"
  shows "lookahead isSemicolon (binaryLoop ops operand n left)"
proof (induction n arbitrary: left)
  case 0
  show ?case by (rule lookahead_never) simp
next
  case (Suc n)
  have eq: "binaryLoop ops operand (Suc n) left =
      (\<lambda>st. withToken st (\<lambda>t.
         if tok_type t = OPERATOR \<and> tok_value t \<in> set ops then
           (\<lambda>st. andThen (consume None None st) (\<lambda>operator st.
              andThen (operand st) (\<lambda>right.
                binaryLoop ops operand n (BinaryExpression (tok_value operator) left right)))) st
         else (\<lambda>st. Ok left st) st))"
    by (rule ext) simp
  show ?case unfolding eq
    by (intro lookahead_test lookahead_andThen consumes_andThen_first [where K = isSemicolon]
        lookahead_consume consumes_consume operand Suc.IH lookahead_Ok) simp_all
qed

lemma binaryLevel_lookahead:
  assumes "lookahead isSemicolon operand" and "consumes operand"
  shows "lookahead isSemicolon (binaryLevel ops operand n)"
    and "consumes (binaryLevel ops operand n)"
proof -
  have eq: "binaryLevel ops operand n = (\<lambda>st. andThen (operand st) (binaryLoop ops operand n))"
    by (rule ext) (simp add: binaryLevel_def)
  show "lookahead isSemicolon (binaryLevel ops operand n)" unfolding eq
    by (intro lookahead_andThen assms binaryLoop_lookahead)
  show "consumes (binaryLevel ops operand n)" unfolding eq
    by (intro consumes_andThen_first [where K = isSemicolon] assms binaryLoop_lookahead)
qed

lemma parseLogicalOr_lookahead:
  assumes E: "lookahead noToken E"
  shows "lookahead isSemicolon (parseLogicalOr E n)" and "consumes (parseLogicalOr E n)"
proof -
  note u = parseUnary_lookahead [OF E, of n, THEN conjunct1]
    parseUnary_lookahead [OF E, of n, THEN conjunct2]
  note m = binaryLevel_lookahead [OF u, of "[''*'', ''/'', ''%'']" n,
      folded parseMultiplicative_def]
  note a = binaryLevel_lookahead [OF m, of "[''+'', ''-'']" n, folded parseAdditive_def]
  note c = binaryLevel_lookahead [OF a, of "[''>'', ''>='', ''<'', ''<='']" n,
      folded parseComparison_def]
  note e = binaryLevel_lookahead [OF c, of "[''=='', ''!='']" n, folded parseEquality_def]
  note l = binaryLevel_lookahead [OF e, of "[''&&'']" n, folded parseLogicalAnd_def]
  note o = binaryLevel_lookahead [OF l, of "[''||'']" n, folded parseLogicalOr_def]
  show "lookahead isSemicolon (parseLogicalOr E n)" by (rule o)
  show "consumes (parseLogicalOr E n)" by (rule o)
qed

lemma parseAssignment_lookahead:
  assumes E: "lookahead noToken E"
  shows "lookahead isSemicolon (parseAssignment E n)"
proof (induction n)
  case 0
  show ?case by (rule lookahead_never) simp
next
  case (Suc n)
  have eq: "parseAssignment E (Suc n) =
      (\<lambda>st. andThen (parseLogicalOr E n st) (\<lambda>left st.
         withToken st (\<lambda>t.
           if tok_type t = OPERATOR \<and> tok_value t \<in> set assignmentOperators then
             (\<lambda>st. andThen (consume None None st) (\<lambda>operator st.
                andThen (parseAssignment E n st) (\<lambda>right st.
                  Ok (AssignmentExpression (tok_value operator) left right) st))) st
           else (\<lambda>st. Ok left st) st)))"
    by (rule ext) simp
  show ?case unfolding eq
    by (intro lookahead_test lookahead_andThen consumes_andThen_first [where K = isSemicolon]
        lookahead_consume consumes_consume parseLogicalOr_lookahead [OF E] Suc.IH lookahead_Ok)
       simp_all
qed

text \<open>
  The expression parser returns the same expression when a semicolon is put in front of
  the tokens it has left.
\<close>

lemma parseExpression_lookahead: "lookahead isSemicolon (parseExpression n)"
proof (induction n)
  case 0
  show ?case by (rule lookahead_never) simp
next
  case (Suc n)
  from parseAssignment_lookahead [OF lookahead_weaken [OF Suc.IH]] show ?case by simp
qed

lemma parseExpression_consumes: "consumes (parseExpression n)"
proof (induction n)
  case 0
  show ?case by (rule consumes_never) simp
next
  case (Suc n)
  have E: "lookahead noToken (parseExpression n)"
    by (rule lookahead_weaken [OF parseExpression_lookahead])
  have "consumes (parseAssignment (parseExpression n) m)" for m
  proof (cases m)
    case 0
    then show ?thesis by (simp add: consumes_def)
  next
    case (Suc k)
    have eq: "parseAssignment (parseExpression n) (Suc k) =
      (\<lambda>st. andThen (parseLogicalOr (parseExpression n) k st) (\<lambda>left st.
         withToken st (\<lambda>t.
           if tok_type t = OPERATOR \<and> tok_value t \<in> set assignmentOperators then
             (\<lambda>st. andThen (consume None None st) (\<lambda>operator st.
                andThen (parseAssignment (parseExpression n) k st) (\<lambda>right st.
                  Ok (AssignmentExpression (tok_value operator) left right) st))) st
           else (\<lambda>st. Ok left st) st)))"
      by (rule ext) simp
    show ?thesis unfolding Suc eq
      by (intro consumes_andThen_first [where K = isSemicolon] parseLogicalOr_lookahead [OF E]
          lookahead_test lookahead_andThen lookahead_consume consumes_consume
          parseAssignment_lookahead [OF E] lookahead_Ok) simp_all
  qed
  then show ?case by simp
qed

section \<open>Optional semicolons\<close>

lemma andThen_assoc: "andThen (andThen r f) g = andThen r (\<lambda>v st. andThen (f v st) g)"
  by (cases r) simp_all

lemma optionalSemicolon_present:
  "toks s = q # rest \<Longrightarrow> isSemicolon q \<Longrightarrow> optionalSemicolon m s = Ok () (s\<lparr>toks := rest\<rparr>)"
  by (simp add: optionalSemicolon_def withToken_def isSemicolon_def consume_def)

lemma optionalSemicolon_cases:
  assumes "optionalSemicolon m s = Ok u s'"
  obtains q rest where "toks s = q # rest" "isSemicolon q" "s' = s\<lparr>toks := rest\<rparr>"
  | t rest where "toks s = t # rest" "\<not> isSemicolon t" "s' = addWarning m s"
  using assms
  by (cases "toks s")
     (auto simp: optionalSemicolon_def withToken_def isSemicolon_def consume_def
           split: if_splits)

text \<open>
  A statement made of a body and a last step \<open>T\<close> that consumes a semicolon when
  there is one and else records the warnings \<open>W\<close>. When the statement was parsed from
  the tokens \<open>A\<close> and the last of them is no semicolon, then with a semicolon put
  behind \<open>A\<close> the parser returns the same node at the same place with the same
  errors, and the run without the semicolon has the warnings \<open>W\<close> more.
\<close>

lemma terminated_statement:
  assumes body: "lookahead isSemicolon Body"
    and present: "\<And>v s q rest. toks s = q # rest \<Longrightarrow> isSemicolon q \<Longrightarrow>
                    T v s = Ok (f v) (s\<lparr>toks := rest\<rparr>)"
    and missing: "\<And>v s node s'. T v s = Ok node s' \<Longrightarrow>
                    (\<exists>q rest. toks s = q # rest \<and> isSemicolon q \<and> toks s' = rest)
                    \<or> (node = f v \<and> toks s' = toks s \<and> errors s' = errors s
                        \<and> warnings s' = warnings s @ W (f v) (toks s))"
    and run: "andThen (Body (st\<lparr>toks := A @ R\<rparr>)) T = Ok node st'"
    and rest: "toks st' = R"
    and A: "A \<noteq> []" "\<not> isSemicolon (last A)"
    and q: "isSemicolon q"
  shows "\<exists>st''. andThen (Body (st\<lparr>toks := A @ q # R\<rparr>)) T = Ok node st''
           \<and> toks st'' = R \<and> errors st'' = errors st'
           \<and> warnings st' = warnings st'' @ W node R"
proof -
  from run obtain v s1 where b: "Body (st\<lparr>toks := A @ R\<rparr>) = Ok v s1"
    and t: "T v s1 = Ok node st'"
    by (rule andThen_OkE)
  from lookaheadD [OF body b] obtain A1 where a1: "A @ R = A1 @ toks s1"
    and r: "\<And>B. agree isSemicolon (toks s1) B \<Longrightarrow>
              Body (st\<lparr>toks := A @ R, toks := A1 @ B\<rparr>) = Ok v (s1\<lparr>toks := B\<rparr>)"
    by auto
  from missing [OF t] consider
      (semicolon) p rest' where "toks s1 = p # rest'" "isSemicolon p" "toks st' = rest'"
    | (none) "node = f v" "toks st' = toks s1" "errors st' = errors s1"
        "warnings st' = warnings s1 @ W (f v) (toks s1)"
    by blast
  then show ?thesis
  proof cases
    case semicolon
    with rest a1 have "A = A1 @ [p]" by simp
    with A \<open>isSemicolon p\<close> show ?thesis by simp
  next
    case none
    then have node: "node = f v" and same: "toks st' = toks s1" "errors st' = errors s1"
      and w: "warnings st' = warnings s1 @ W (f v) (toks s1)"
      by simp_all
    from same rest have s1: "toks s1 = R" by simp
    with a1 have AA: "A1 = A" by simp
    have "agree isSemicolon (toks s1) (q # R)" using q by (simp add: agree_def)
    from r [OF this] have b': "Body (st\<lparr>toks := A @ q # R\<rparr>) = Ok v (s1\<lparr>toks := q # R\<rparr>)"
      by (simp add: AA)
    have "T v (s1\<lparr>toks := q # R\<rparr>) = Ok (f v) (s1\<lparr>toks := R\<rparr>)"
      using present [of "s1\<lparr>toks := q # R\<rparr>" q R v] q by simp
    with b' node
    have new: "andThen (Body (st\<lparr>toks := A @ q # R\<rparr>)) T = Ok node (s1\<lparr>toks := R\<rparr>)"
      by simp
    have e: "errors (s1\<lparr>toks := R\<rparr>) = errors st'" using same by simp
    have ww: "warnings st' = warnings (s1\<lparr>toks := R\<rparr>) @ W node R"
      using w node s1 by simp
    have t: "toks (s1\<lparr>toks := R\<rparr>) = R" by simp
    from new t e ww show ?thesis by blast
  qed
qed

lemma optionalSemicolon_step:
  "toks s = q # rest \<Longrightarrow> isSemicolon q \<Longrightarrow>
     andThen (optionalSemicolon m s) (\<lambda>_ st. Ok node st) = Ok node (s\<lparr>toks := rest\<rparr>)"
  "andThen (optionalSemicolon m s) (\<lambda>_ st. Ok node st) = Ok node' s' \<Longrightarrow>
     (\<exists>q rest. toks s = q # rest \<and> isSemicolon q \<and> toks s' = rest)
     \<or> (node' = node \<and> toks s' = toks s \<and> errors s' = errors s
         \<and> warnings s' = warnings s @ [m])"
proof -
  show "toks s = q # rest \<Longrightarrow> isSemicolon q \<Longrightarrow>
     andThen (optionalSemicolon m s) (\<lambda>_ st. Ok node st) = Ok node (s\<lparr>toks := rest\<rparr>)"
    by (simp add: optionalSemicolon_present)
  assume "andThen (optionalSemicolon m s) (\<lambda>_ st. Ok node st) = Ok node' s'"
  then obtain u where o: "optionalSemicolon m s = Ok u s'" and n: "node' = node"
    by (auto elim!: andThen_OkE)
  from o show "(\<exists>q rest. toks s = q # rest \<and> isSemicolon q \<and> toks s' = rest)
     \<or> (node' = node \<and> toks s' = toks s \<and> errors s' = errors s
         \<and> warnings s' = warnings s @ [m])"
    by (cases rule: optionalSemicolon_cases) (simp_all add: n addWarning_def)
qed

lemma optionalSemicolon_missing:
  assumes "andThen (optionalSemicolon m s) (\<lambda>_ st. Ok node st) = Ok node' s'"
    and "\<And>ts. missingSemicolon node ts = [m]"
  shows "(\<exists>q rest. toks s = q # rest \<and> isSemicolon q \<and> toks s' = rest)
     \<or> (node' = node \<and> toks s' = toks s \<and> errors s' = errors s
         \<and> warnings s' = warnings s @ missingSemicolon node (toks s))"
  using optionalSemicolon_step(2) [OF assms(1)] assms(2) by simp

lemma parseVariableDeclaration_split:
  "parseVariableDeclaration n st = andThen (declarationBody n st) declarationEnd"
proof -
  have d: "declarationEnd = (\<lambda>(kind, identifier, init) st.
        andThen (optionalSemicolon
                   (''Missing semicolon after variable declaration for '' @ [CHR 0x27]
                      @ tok_value identifier @ [CHR 0x27]) st) (\<lambda>_ st.
          Ok (VariableDeclaration (tok_value kind) (tok_value identifier) init) st))"
    by (intro ext) (simp add: declarationEnd_def split: prod.splits)
  show ?thesis
    unfolding parseVariableDeclaration_def declarationBody_def d by (simp add: andThen_assoc)
qed

lemma declarationBody_lookahead: "lookahead isSemicolon (declarationBody n)"
proof -
  have eq: "declarationBody n =
     (\<lambda>st. andThen (consume None None st) (\<lambda>kind st.
     andThen (consume (Some IDENTIFIER) None st) (\<lambda>identifier st.
     andThen (withToken st (\<lambda>t.
                if matches t OPERATOR ''='' then
                  (\<lambda>st. andThen (consume None None st) (\<lambda>_ st.
                  andThen (parseExpression n st) (\<lambda>e st. Ok (Some e) st))) st
                else (\<lambda>st. Ok None st) st)) (\<lambda>init st. Ok (kind, identifier, init) st))))"
    by (rule ext) (simp add: declarationBody_def)
  show ?thesis unfolding eq
    by (intro lookahead_andThen lookahead_consume lookahead_test lookahead_Ok
        parseExpression_lookahead consumes_andThen_first [where K = isSemicolon]
        consumes_consume) simp_all
qed

lemma parseReturnStatement_split:
  "parseReturnStatement n st = andThen (returnBody n st) returnEnd"
proof -
  have r: "returnEnd = (\<lambda>argument st.
     withToken st (\<lambda>t.
       if matches t PUNCTUATION '';'' then
         andThen (consume None None st) (\<lambda>_ st. Ok (ReturnStatement argument) st)
       else if \<not> matches t BRACKET ''}'' then
         Ok (ReturnStatement argument)
           (addWarning ''Missing semicolon after return statement'' st)
       else Ok (ReturnStatement argument) st))"
    by (intro ext) (simp add: returnEnd_def)
  show ?thesis
    unfolding parseReturnStatement_def returnBody_def r by (simp add: andThen_assoc)
qed

lemma returnBody_lookahead: "lookahead isSemicolon (returnBody n)"
proof -
  have eq: "returnBody n =
     (\<lambda>st. andThen (consume (Some KEYWORD) (Some ''return'') st) (\<lambda>_ st.
       withToken st (\<lambda>t.
         if \<not> matches t PUNCTUATION '';'' \<and> \<not> matches t BRACKET ''}'' then
           (\<lambda>st. andThen (parseExpression n st) (\<lambda>e st. Ok (Some e) st)) st
         else (\<lambda>st. Ok None st) st)))"
    by (rule ext) (simp add: returnBody_def)
  show ?thesis unfolding eq
    by (intro lookahead_andThen lookahead_consume lookahead_test lookahead_Ok
        parseExpression_lookahead consumes_andThen_first [where K = isSemicolon]
        parseExpression_consumes)
       (simp_all add: isSemicolon_def)
qed

lemma returnEnd_step:
  "toks s = q # rest \<Longrightarrow> isSemicolon q \<Longrightarrow>
     returnEnd argument s = Ok (ReturnStatement argument) (s\<lparr>toks := rest\<rparr>)"
  "returnEnd argument s = Ok node' s' \<Longrightarrow>
     (\<exists>q rest. toks s = q # rest \<and> isSemicolon q \<and> toks s' = rest)
     \<or> (node' = ReturnStatement argument \<and> toks s' = toks s \<and> errors s' = errors s
         \<and> warnings s' = warnings s @ missingSemicolon (ReturnStatement argument) (toks s))"
  by (cases "toks s";
      auto simp: returnEnd_def withToken_def isSemicolon_def consume_def addWarning_def
             missingSemicolon_def
           split: if_splits)+

text \<open>
  C7, amended, on the token list. Let one of the five statement parsers return a node
  from the tokens \<open>A\<close>, the last of which is no semicolon, in front of the tokens
  \<open>R\<close>. Then with a semicolon token put between \<open>A\<close> and \<open>R\<close> it returns the
  same node and goes on at \<open>R\<close> with the same errors. The run without the semicolon
  has recorded one warning more, as its last: the message of the statement for the
  missing semicolon. The exception is a \<open>return\<close> statement in front of \<open>}\<close>, which
  records nothing.
\<close>

theorem semicolon_insertion:
  assumes P: "P \<in> set (semicolonStatements n)"
    and run: "P (st\<lparr>toks := A @ R\<rparr>) = Ok node st'"
    and rest: "toks st' = R"
    and A: "A \<noteq> []" "\<not> isSemicolon (last A)"
    and q: "isSemicolon q"
  shows "\<exists>st''. P (st\<lparr>toks := A @ q # R\<rparr>) = Ok node st''
           \<and> toks st'' = R \<and> errors st'' = errors st'
           \<and> warnings st' = warnings st'' @ missingSemicolon node R"
proof -
  from P consider "P = parseVariableDeclaration n" | "P = parseExpressionStatement n"
    | "P = parseReturnStatement n" | "P = parseBreakStatement" | "P = parseContinueStatement"
    by (auto simp: semicolonStatements_def)
  then show ?thesis
  proof cases
    case 1
    have present: "toks s = p # r \<Longrightarrow> isSemicolon p \<Longrightarrow>
        declarationEnd v s
          = Ok (case v of (kind, identifier, init) \<Rightarrow>
                  VariableDeclaration (tok_value kind) (tok_value identifier) init)
               (s\<lparr>toks := r\<rparr>)" for v s p r
    proof -
      assume a: "toks s = p # r" "isSemicolon p"
      obtain kd ident ini where v: "v = (kd, ident, ini)" by (cases v) auto
      show ?thesis unfolding v using optionalSemicolon_step(1) [OF a]
        by (simp add: declarationEnd_def)
    qed
    have missing: "declarationEnd v s = Ok node' s' \<Longrightarrow>
        (\<exists>q rest. toks s = q # rest \<and> isSemicolon q \<and> toks s' = rest)
        \<or> (node' = (case v of (kind, identifier, init) \<Rightarrow>
                  VariableDeclaration (tok_value kind) (tok_value identifier) init)
            \<and> toks s' = toks s \<and> errors s' = errors s
            \<and> warnings s' = warnings s
                 @ missingSemicolon (case v of (kind, identifier, init) \<Rightarrow>
                     VariableDeclaration (tok_value kind) (tok_value identifier) init) (toks s))"
      for v s node' s'
    proof -
      assume a: "declarationEnd v s = Ok node' s'"
      obtain kd ident ini where v: "v = (kd, ident, ini)" by (cases v) auto
      from a have "andThen (optionalSemicolon
                   (''Missing semicolon after variable declaration for '' @ [CHR 0x27]
                      @ tok_value ident @ [CHR 0x27]) s) (\<lambda>_ st.
          Ok (VariableDeclaration (tok_value kd) (tok_value ident) ini) st) = Ok node' s'"
        by (simp add: declarationEnd_def v)
      from optionalSemicolon_missing [OF this] show ?thesis
        by (simp add: v missingSemicolon_def)
    qed
    from terminated_statement [of "declarationBody n" declarationEnd _ missingSemicolon,
        OF declarationBody_lookahead present missing
        run [unfolded 1 parseVariableDeclaration_split] rest A q]
    show ?thesis unfolding 1 parseVariableDeclaration_split .
  next
    case 2
    let ?T = "\<lambda>expr st. andThen (optionalSemicolon ''Missing semicolon after expression'' st)
                (\<lambda>_ st. Ok (ExpressionStatement expr) st)"
    have missing: "?T v s = Ok node' s' \<Longrightarrow>
        (\<exists>q rest. toks s = q # rest \<and> isSemicolon q \<and> toks s' = rest)
        \<or> (node' = ExpressionStatement v \<and> toks s' = toks s \<and> errors s' = errors s
            \<and> warnings s' = warnings s @ missingSemicolon (ExpressionStatement v) (toks s))"
      for v s node' s'
      by (erule optionalSemicolon_missing) (simp add: missingSemicolon_def)
    from terminated_statement [of "parseExpression n" ?T ExpressionStatement missingSemicolon,
        OF parseExpression_lookahead optionalSemicolon_step(1) missing
        run [unfolded 2 parseExpressionStatement_def] rest A q]
    show ?thesis unfolding 2 parseExpressionStatement_def .
  next
    case 3
    from terminated_statement [of "returnBody n" returnEnd ReturnStatement missingSemicolon,
        OF returnBody_lookahead returnEnd_step
        run [unfolded 3 parseReturnStatement_split] rest A q]
    show ?thesis unfolding 3 parseReturnStatement_split .
  next
    case 4
    let ?T = "\<lambda>(_::Token) st.
                andThen (optionalSemicolon ''Missing semicolon after break statement'' st)
                  (\<lambda>_ st. Ok BreakStatement st)"
    have missing: "?T v s = Ok node' s' \<Longrightarrow>
        (\<exists>q rest. toks s = q # rest \<and> isSemicolon q \<and> toks s' = rest)
        \<or> (node' = BreakStatement \<and> toks s' = toks s \<and> errors s' = errors s
            \<and> warnings s' = warnings s @ missingSemicolon BreakStatement (toks s))"
      for v s node' s'
      by (erule optionalSemicolon_missing) (simp add: missingSemicolon_def)
    from terminated_statement [of "consume (Some KEYWORD) (Some ''break'')" ?T
        "\<lambda>_. BreakStatement" missingSemicolon,
        OF lookahead_consume optionalSemicolon_step(1) missing
        run [unfolded 4 parseBreakStatement_def] rest A q]
    show ?thesis unfolding 4 parseBreakStatement_def .
  next
    case 5
    let ?T = "\<lambda>(_::Token) st.
                andThen (optionalSemicolon ''Missing semicolon after continue statement'' st)
                  (\<lambda>_ st. Ok ContinueStatement st)"
    have missing: "?T v s = Ok node' s' \<Longrightarrow>
        (\<exists>q rest. toks s = q # rest \<and> isSemicolon q \<and> toks s' = rest)
        \<or> (node' = ContinueStatement \<and> toks s' = toks s \<and> errors s' = errors s
            \<and> warnings s' = warnings s @ missingSemicolon ContinueStatement (toks s))"
      for v s node' s'
      by (erule optionalSemicolon_missing) (simp add: missingSemicolon_def)
    from terminated_statement [of "consume (Some KEYWORD) (Some ''continue'')" ?T
        "\<lambda>_. ContinueStatement" missingSemicolon,
        OF lookahead_consume optionalSemicolon_step(1) missing
        run [unfolded 5 parseContinueStatement_def] rest A q]
    show ?thesis unfolding 5 parseContinueStatement_def .
  qed
qed

theorem semicolon_insertion_witness:
  "tokenize ''var a = 1 '' [] = (unterminated @ [endToken], [])
   \<and> tokenize ''var a = 1;'' [] = (unterminated @ semicolonToken # [endToken], [])
   \<and> parseVariableDeclaration 20 \<in> set (semicolonStatements 20)
   \<and> parseVariableDeclaration 20
         (\<lparr>toks = [], errors = [], warnings = []\<rparr>\<lparr>toks := unterminated @ [endToken]\<rparr>)
       = Ok (VariableDeclaration ''var'' ''a'' (Some (Literal (NumberValue ''1''))))
           \<lparr>toks = [endToken], errors = [],
            warnings = [''Missing semicolon after variable declaration for '' @ [CHR 0x27]
                          @ ''a'' @ [CHR 0x27]]\<rparr>
   \<and> unterminated \<noteq> [] \<and> \<not> isSemicolon (last unterminated) \<and> isSemicolon semicolonToken
   \<and> (\<exists>st''. parseVariableDeclaration 20
                 (\<lparr>toks = [], errors = [], warnings = []\<rparr>
                    \<lparr>toks := unterminated @ semicolonToken # [endToken]\<rparr>)
               = Ok (VariableDeclaration ''var'' ''a'' (Some (Literal (NumberValue ''1'')))) st''
            \<and> toks st'' = [endToken] \<and> errors st'' = []
            \<and> warnings st'' = [])
   \<and> parseReturnStatement 20 \<in> set (semicolonStatements 20)
   \<and> parseReturnStatement 20
         (\<lparr>toks = [], errors = [], warnings = []\<rparr>
            \<lparr>toks := unterminatedReturn @ [closingBrace, endToken]\<rparr>)
       = Ok (ReturnStatement (Some (Literal (NumberValue ''1''))))
           \<lparr>toks = [closingBrace, endToken], errors = [], warnings = []\<rparr>
   \<and> unterminatedReturn \<noteq> [] \<and> \<not> isSemicolon (last unterminatedReturn)
   \<and> (\<exists>st''. parseReturnStatement 20
                 (\<lparr>toks = [], errors = [], warnings = []\<rparr>
                    \<lparr>toks := unterminatedReturn @ semicolonToken # [closingBrace, endToken]\<rparr>)
               = Ok (ReturnStatement (Some (Literal (NumberValue ''1'')))) st''
            \<and> toks st'' = [closingBrace, endToken] \<and> errors st'' = []
            \<and> warnings st'' = [])"
proof -
  let ?w = "''Missing semicolon after variable declaration for '' @ [CHR 0x27] @ ''a'' @ [CHR 0x27]"
  let ?st' = "\<lparr>toks = [endToken], errors = [], warnings = [?w]\<rparr>"
  let ?rt' = "\<lparr>toks = [closingBrace, endToken], errors = [], warnings = []\<rparr>"
  have lex1: "tokenize ''var a = 1 '' [] = (unterminated @ [endToken], [])"
    unfolding unterminated_def endToken_def by code_simp
  have lex2: "tokenize ''var a = 1;'' [] = (unterminated @ semicolonToken # [endToken], [])"
    unfolding unterminated_def endToken_def semicolonToken_def by code_simp
  have P: "parseVariableDeclaration 20 \<in> set (semicolonStatements 20)"
    by (simp add: semicolonStatements_def)
  have run: "parseVariableDeclaration 20
         (\<lparr>toks = [], errors = [], warnings = []\<rparr>\<lparr>toks := unterminated @ [endToken]\<rparr>)
       = Ok (VariableDeclaration ''var'' ''a'' (Some (Literal (NumberValue ''1'')))) ?st'"
    unfolding unterminated_def endToken_def by code_simp
  have rest: "toks ?st' = [endToken]" by simp
  have A: "unterminated \<noteq> []" "\<not> isSemicolon (last unterminated)"
    by (simp_all add: unterminated_def isSemicolon_def matches_def matchesType_def)
  have q: "isSemicolon semicolonToken"
    by (simp add: semicolonToken_def isSemicolon_def matches_def matchesType_def)
  from semicolon_insertion [OF P run rest A q]
  have one: "\<exists>st''. parseVariableDeclaration 20
                 (\<lparr>toks = [], errors = [], warnings = []\<rparr>
                    \<lparr>toks := unterminated @ semicolonToken # [endToken]\<rparr>)
               = Ok (VariableDeclaration ''var'' ''a'' (Some (Literal (NumberValue ''1'')))) st''
            \<and> toks st'' = [endToken] \<and> errors st'' = [] \<and> warnings st'' = []"
    by (simp add: missingSemicolon_def)
  have P2: "parseReturnStatement 20 \<in> set (semicolonStatements 20)"
    by (simp add: semicolonStatements_def)
  have run2: "parseReturnStatement 20
         (\<lparr>toks = [], errors = [], warnings = []\<rparr>
            \<lparr>toks := unterminatedReturn @ [closingBrace, endToken]\<rparr>)
       = Ok (ReturnStatement (Some (Literal (NumberValue ''1'')))) ?rt'"
    unfolding unterminatedReturn_def closingBrace_def endToken_def by code_simp
  have rest2: "toks ?rt' = [closingBrace, endToken]" by simp
  have A2: "unterminatedReturn \<noteq> []" "\<not> isSemicolon (last unterminatedReturn)"
    by (simp_all add: unterminatedReturn_def isSemicolon_def matches_def matchesType_def)
  have silent: "missingSemicolon (ReturnStatement (Some (Literal (NumberValue ''1''))))
                  [closingBrace, endToken] = []"
    by (simp add: missingSemicolon_def closingBrace_def matches_def matchesType_def)
  from semicolon_insertion [OF P2 run2 rest2 A2 q]
  have two: "\<exists>st''. parseReturnStatement 20
                 (\<lparr>toks = [], errors = [], warnings = []\<rparr>
                    \<lparr>toks := unterminatedReturn @ semicolonToken # [closingBrace, endToken]\<rparr>)
               = Ok (ReturnStatement (Some (Literal (NumberValue ''1'')))) st''
            \<and> toks st'' = [closingBrace, endToken] \<and> errors st'' = []
            \<and> warnings st'' = []"
    unfolding silent by (simp add: eq_commute [of "[]"])
  from lex1 lex2 P run A q one P2 run2 A2 two show ?thesis by (intro conjI)
qed

text \<open>
  C7, as stated, does not hold on the source text. In \<open>var a = 1; -2;\<close> the semicolon
  after the declaration is optional: without it the declaration is parsed, with a warning,
  whatever follows. But the tokens that follow are read as the rest of the initialiser:
  \<open>var a = 1 -2;\<close> is one declaration of \<open>a\<close> with the initialiser \<open>1 - 2\<close>,
  where the text with the semicolon is a declaration and an expression statement. A
  \<open>return\<close> without a semicolon in front of \<open>}\<close> records no warning at all. And a
  semicolon added in front of a double-quoted string never becomes a token: \<open>break"s"\<close>
  compiles without an error, while in \<open>break;"s"\<close> the STRING expression finds the
  string behind the semicolon, the loop cuts three code units from the head, and the
  closing quote is reported as an error.
\<close>

theorem semicolon_removal_changes_tree:
  "map_option res_ast (compile 50 50 id ''var a = 1; -2;'')
     = Some (Some (Program
         [VariableDeclaration ''var'' ''a'' (Some (Literal (NumberValue ''1''))),
          ExpressionStatement (UnaryExpression ''-'' (Literal (NumberValue ''2'')))]))
   \<and> map_option res_ast (compile 50 50 id ''var a = 1 -2;'')
     = Some (Some (Program
         [VariableDeclaration ''var'' ''a''
            (Some (BinaryExpression ''-'' (Literal (NumberValue ''1''))
                     (Literal (NumberValue ''2''))))]))
   \<and> map_option (\<lambda>r. (res_errors r, res_warnings r, res_ast r))
         (compile 50 50 id ''function f(){ return 1 }'')
     = Some ([], [], Some (Program
         [FunctionDefinition ''f'' []
            (Block [ReturnStatement (Some (Literal (NumberValue ''1'')))])]))
   \<and> map_option (\<lambda>r. (success r, res_errors r))
         (compile 50 50 id (''break'' @ [CHR 0x22] @ ''s'' @ [CHR 0x22]))
     = Some (True, [])
   \<and> map_option (\<lambda>r. (success r, res_errors r))
         (compile 50 50 id (''break;'' @ [CHR 0x22] @ ''s'' @ [CHR 0x22]))
     = Some (False, [''Unexpected character at position 8: '' @ [CHR 0x27, CHR 0x22, CHR 0x27]])"
  by (intro conjI; code_simp)

end
